theory Spec2Isabelle
  imports Complex_Main "HOL-Library.Word" "HOL-Library.Log_Nat"
begin

section \<open>Python values used by hades_cheat.py\<close>

text \<open>
  A Python \<open>str\<close> is a sequence of Unicode code points, a \<open>bytes\<close> object a sequence
  of octets. String literals of the source are written with \<open>str_of\<close>.
\<close>

type_synonym ustr = "nat list"
type_synonym bytes = "8 word list"

definition str_of :: "string \<Rightarrow> ustr" where
  "str_of s = map of_char s"

text \<open>
  The exceptions the program can raise. \<open>RuntimeError\<close> carries the fixed part of the
  message of the \<open>raise\<close> statement it comes from.
\<close>

datatype error =
    RuntimeError string
  | ValueError
  | OverflowError
  | ZeroDivisionError
  | UnicodeEncodeError
  | AttributeError
  | OSError

subsection \<open>Floating point numbers\<close>

text \<open>
  A Python \<open>float\<close> is an IEEE 754 binary64 value: a finite number (carried as the
  rational it denotes, \<open>Finite 0\<close> being \<open>+0.0\<close>), negative zero, an infinity or a NaN.
  Every arithmetic result is the exact result rounded to the nearest representable
  value, ties to the even significand (\<open>round_double\<close>).
\<close>

datatype pyfloat = Finite rat | NegZero | PosInf | NegInf | NaN

definition ilog :: "nat \<Rightarrow> rat \<Rightarrow> int" where
  \<comment> \<open>for \<open>a > 0\<close> and \<open>b > 1\<close>: the integer \<open>k\<close> with \<open>b^k \<le> a < b^(k+1)\<close>\<close>
  "ilog b a =
     (let k = int (floorlog b (nat (fst (quotient_of a)))) -
              int (floorlog b (nat (snd (quotient_of a))))
      in if of_nat b powi k \<le> a then k else k - 1)"

definition rne :: "rat \<Rightarrow> int" where
  \<comment> \<open>round to the nearest integer, ties to even\<close>
  "rne x =
     (let f = \<lfloor>x\<rfloor>; d = x - of_int f
      in if d < 1 / 2 then f else if 1 / 2 < d then f + 1 else if even f then f else f + 1)"

definition round_double :: "rat \<Rightarrow> pyfloat" where
  "round_double q =
     (if q = 0 then Finite 0
      else
        let a = \<bar>q\<bar>;
            e = max (ilog 2 a - 52) (- 1074);
            m = rne (a / 2 powi e);
            v = of_int m * 2 powi e
        in if 2 ^ 1024 \<le> v then (if 0 < q then PosInf else NegInf)
           else if m = 0 then (if 0 < q then Finite 0 else NegZero)
           else Finite (if 0 < q then v else - v))"

text \<open>
  The finite values of the format: an integer significand below \<open>2^53\<close> in magnitude times
  a power of two between \<open>2^-1074\<close> and \<open>2^971\<close>.
\<close>

definition is_double :: "rat \<Rightarrow> bool" where
  "is_double q = (\<exists>m e. q = of_int m * 2 powi e \<and> \<bar>m\<bar> < 2 ^ 53 \<and> - 1074 \<le> e \<and> e \<le> 971)"

definition representable :: "pyfloat \<Rightarrow> bool" where
  "representable x = (case x of Finite q \<Rightarrow> is_double q | _ \<Rightarrow> True)"

definition is_nan :: "pyfloat \<Rightarrow> bool" where
  "is_nan x = (x = NaN)"

definition is_inf :: "pyfloat \<Rightarrow> bool" where
  "is_inf x = (x = PosInf \<or> x = NegInf)"

fun fval :: "pyfloat \<Rightarrow> rat" where
  "fval (Finite q) = q"
| "fval _ = 0"

fun fneg :: "pyfloat \<Rightarrow> bool" where
  \<comment> \<open>the sign bit\<close>
  "fneg (Finite q) = (q < 0)"
| "fneg NegZero = True"
| "fneg NegInf = True"
| "fneg _ = False"

definition is_zero :: "pyfloat \<Rightarrow> bool" where
  "is_zero x = (x = Finite 0 \<or> x = NegZero)"

definition fmul :: "pyfloat \<Rightarrow> pyfloat \<Rightarrow> pyfloat" where
  "fmul x y =
     (if is_nan x \<or> is_nan y then NaN
      else if is_inf x \<or> is_inf y then
        (if is_zero x \<or> is_zero y then NaN
         else if fneg x \<noteq> fneg y then NegInf else PosInf)
      else if fval x * fval y = 0 then (if fneg x \<noteq> fneg y then NegZero else Finite 0)
      else round_double (fval x * fval y))"

definition fadd :: "pyfloat \<Rightarrow> pyfloat \<Rightarrow> pyfloat" where
  "fadd x y =
     (if is_nan x \<or> is_nan y then NaN
      else if is_inf x then (if is_inf y \<and> x \<noteq> y then NaN else x)
      else if is_inf y then y
      else if fval x + fval y = 0 then (if fneg x \<and> fneg y then NegZero else Finite 0)
      else round_double (fval x + fval y))"

fun float_lt :: "pyfloat \<Rightarrow> pyfloat \<Rightarrow> bool" where
  \<comment> \<open>\<open>x < y\<close> on floats: false as soon as one side is a NaN\<close>
  "float_lt NaN _ = False"
| "float_lt _ NaN = False"
| "float_lt PosInf _ = False"
| "float_lt _ PosInf = True"
| "float_lt _ NegInf = False"
| "float_lt NegInf _ = True"
| "float_lt x y = (fval x < fval y)"

fun fnegate :: "pyfloat \<Rightarrow> pyfloat" where
  "fnegate (Finite q) = (if q = 0 then NegZero else Finite (- q))"
| "fnegate NegZero = Finite 0"
| "fnegate PosInf = NegInf"
| "fnegate NegInf = PosInf"
| "fnegate NaN = NaN"

definition fsub :: "pyfloat \<Rightarrow> pyfloat \<Rightarrow> pyfloat" where
  "fsub x y = fadd x (fnegate y)"

definition signed_zero :: "bool \<Rightarrow> pyfloat" where
  "signed_zero negative = (if negative then NegZero else Finite 0)"

definition fdiv :: "pyfloat \<Rightarrow> pyfloat \<Rightarrow> error + pyfloat" where
  \<comment> \<open>\<open>x / y\<close> on floats: Python raises on a zero divisor\<close>
  "fdiv x y =
     (if is_zero y then Inl ZeroDivisionError
      else if is_nan x \<or> is_nan y then Inr NaN
      else if is_inf x then
        (if is_inf y then Inr NaN else Inr (if fneg x \<noteq> fneg y then NegInf else PosInf))
      else if is_inf y \<or> is_zero x then Inr (signed_zero (fneg x \<noteq> fneg y))
      else Inr (round_double (fval x / fval y)))"

subsection \<open>Numbers and values\<close>

text \<open>
  The numbers of the configuration are Python \<open>int\<close>s (unbounded) or \<open>float\<close>s; the value
  an action returns is a number or a \<open>str\<close>.
\<close>

datatype pynum = PInt int | PFloat pyfloat

datatype pyval = PNum pynum | PStr ustr

definition int_to_float :: "int \<Rightarrow> error + pyfloat" where
  \<comment> \<open>the conversion of an \<open>int\<close> operand of a float operation\<close>
  "int_to_float i =
     (case round_double (of_int i) of
        PosInf \<Rightarrow> Inl OverflowError
      | NegInf \<Rightarrow> Inl OverflowError
      | f \<Rightarrow> Inr f)"

fun num_to_float :: "pynum \<Rightarrow> error + pyfloat" where
  "num_to_float (PInt i) = int_to_float i"
| "num_to_float (PFloat x) = Inr x"

definition py_mul_float :: "pyfloat \<Rightarrow> pynum \<Rightarrow> error + pyfloat" where
  \<comment> \<open>\<open>x * n\<close> for a float \<open>x\<close>\<close>
  "py_mul_float x n = (case num_to_float n of Inl e \<Rightarrow> Inl e | Inr y \<Rightarrow> Inr (fmul x y))"

fun py_sub :: "pynum \<Rightarrow> pynum \<Rightarrow> error + pynum" where
  "py_sub (PInt i) (PInt j) = Inr (PInt (i - j))"
| "py_sub a b =
     (case num_to_float a of
        Inl e \<Rightarrow> Inl e
      | Inr x \<Rightarrow> (case num_to_float b of Inl e \<Rightarrow> Inl e | Inr y \<Rightarrow> Inr (PFloat (fsub x y))))"

fun py_truediv :: "pynum \<Rightarrow> pynum \<Rightarrow> error + pyfloat" where
  "py_truediv (PInt i) (PInt j) =
     (if j = 0 then Inl ZeroDivisionError
      else if i = 0 then Inr (signed_zero (j < 0))
      else case round_double (of_int i / of_int j) of
             PosInf \<Rightarrow> Inl OverflowError
           | NegInf \<Rightarrow> Inl OverflowError
           | f \<Rightarrow> Inr f)"
| "py_truediv a b =
     (case num_to_float a of
        Inl e \<Rightarrow> Inl e
      | Inr x \<Rightarrow> (case num_to_float b of Inl e \<Rightarrow> Inl e | Inr y \<Rightarrow> fdiv x y))"

text \<open>
  Comparison of numbers is exact, also between an \<open>int\<close> and a \<open>float\<close>. \<open>max(a, b)\<close>
  keeps \<open>a\<close> unless \<open>b > a\<close>, \<open>min(a, b)\<close> keeps \<open>a\<close> unless \<open>b < a\<close>.
\<close>

fun exact :: "pynum \<Rightarrow> pyfloat" where
  "exact (PInt i) = Finite (of_int i)"
| "exact (PFloat x) = x"

definition num_lt :: "pynum \<Rightarrow> pynum \<Rightarrow> bool" where
  "num_lt a b = float_lt (exact a) (exact b)"


definition py_max :: "pynum \<Rightarrow> pynum \<Rightarrow> pynum" where
  "py_max a b = (if num_lt a b then b else a)"

definition py_min :: "pynum \<Rightarrow> pynum \<Rightarrow> pynum" where
  "py_min a b = (if num_lt b a then b else a)"

definition py_floor :: "pyfloat \<Rightarrow> error + int" where
  \<comment> \<open>\<open>math.floor\<close>\<close>
  "py_floor x =
     (case x of
        Finite q \<Rightarrow> Inr \<lfloor>q\<rfloor>
      | NegZero \<Rightarrow> Inr 0
      | NaN \<Rightarrow> Inl ValueError
      | _ \<Rightarrow> Inl OverflowError)"

text \<open>
  \<open>round(x, ndigits)\<close> on a float: the exact value of \<open>x\<close> is rounded to \<open>ndigits\<close> decimal
  places, ties to even, and the decimal result is read back as a float.
\<close>

definition py_round :: "pyfloat \<Rightarrow> int \<Rightarrow> error + pyfloat" where
  "py_round x ndigits =
     (case x of
        Finite q \<Rightarrow>
          if q = 0 \<or> 323 < ndigits then Inr x
          else if ndigits < - 308 then Inr (signed_zero (q < 0))
          else
            let r = of_int (rne (q * 10 powi ndigits)) / 10 powi ndigits
            in if r = 0 then Inr (signed_zero (q < 0))
               else (case round_double r of
                       PosInf \<Rightarrow> Inl OverflowError
                     | NegInf \<Rightarrow> Inl OverflowError
                     | f \<Rightarrow> Inr f)
      | _ \<Rightarrow> Inr x)"

subsection \<open>Reading numbers from text: \<open>int(s)\<close> and \<open>float(s)\<close>\<close>

text \<open>
  Both conversions strip white space, accept a sign and allow single underscores between
  digits. Decimal digits and white space outside ASCII, which Python reads through the
  Unicode database, are not modelled: such a text is rejected here. The limit of recent
  interpreters on the length of a decimal string is left out.
\<close>

definition is_digit :: "nat \<Rightarrow> bool" where
  "is_digit c = (48 \<le> c \<and> c \<le> 57)"

definition is_space :: "nat \<Rightarrow> bool" where
  "is_space c = (c = 32 \<or> (9 \<le> c \<and> c \<le> 13))"

definition strip :: "ustr \<Rightarrow> ustr" where
  "strip s = rev (dropWhile is_space (rev (dropWhile is_space s)))"

definition to_lower :: "nat \<Rightarrow> nat" where
  "to_lower c = (if 65 \<le> c \<and> c \<le> 90 then c + 32 else c)"

fun underscores_ok :: "nat \<Rightarrow> ustr \<Rightarrow> bool" where
  \<comment> \<open>an underscore stands only between two digits; the first argument is the previous character\<close>
  "underscores_ok prev [] = (prev \<noteq> 95)"
| "underscores_ok prev (c # cs) =
     (if c = 95 then is_digit prev \<and> underscores_ok c cs
      else if prev = 95 then is_digit c \<and> underscores_ok c cs
      else underscores_ok c cs)"

definition remove_underscores :: "ustr \<Rightarrow> ustr option" where
  "remove_underscores s = (if underscores_ok 0 s then Some (filter (\<lambda>c. c \<noteq> 95) s) else None)"

definition digits_val :: "ustr \<Rightarrow> nat" where
  "digits_val ds = foldl (\<lambda>n c. 10 * n + (c - 48)) 0 ds"

definition split_sign :: "ustr \<Rightarrow> bool \<times> ustr" where
  "split_sign t =
     (case t of
        [] \<Rightarrow> (False, [])
      | c # r \<Rightarrow> if c = 45 then (True, r) else if c = 43 then (False, r) else (False, t))"

definition py_int :: "ustr \<Rightarrow> error + int" where
  "py_int s =
     (case remove_underscores (strip s) of
        None \<Rightarrow> Inl ValueError
      | Some t \<Rightarrow>
          (case split_sign t of
             (negative, ds) \<Rightarrow>
               if ds \<noteq> [] \<and> list_all is_digit ds
               then Inr (if negative then - int (digits_val ds) else int (digits_val ds))
               else Inl ValueError))"

definition parse_exponent :: "ustr \<Rightarrow> int option" where
  \<comment> \<open>what follows the mantissa: nothing, or \<open>e\<close>, an optional sign and digits\<close>
  "parse_exponent r =
     (case r of
        [] \<Rightarrow> Some 0
      | c # r1 \<Rightarrow>
          if c = 101 \<or> c = 69 then
            (case split_sign r1 of
               (negative, ds) \<Rightarrow>
                 if ds \<noteq> [] \<and> list_all is_digit ds
                 then Some (if negative then - int (digits_val ds) else int (digits_val ds))
                 else None)
          else None)"

definition parse_decimal :: "ustr \<Rightarrow> rat option" where
  \<comment> \<open>an unsigned decimal number: digits, an optional point and digits, an optional exponent\<close>
  "parse_decimal body =
     (let ip = takeWhile is_digit body;
          r1 = dropWhile is_digit body;
          has_point = (case r1 of [] \<Rightarrow> False | c # _ \<Rightarrow> c = 46);
          fp = (if has_point then takeWhile is_digit (tl r1) else []);
          r2 = (if has_point then dropWhile is_digit (tl r1) else r1)
      in if ip = [] \<and> fp = [] then None
         else case parse_exponent r2 of
                None \<Rightarrow> None
              | Some ex \<Rightarrow> Some (of_nat (digits_val (ip @ fp)) * 10 powi (ex - int (length fp))))"

definition parse_inf_or_nan :: "bool \<Rightarrow> ustr \<Rightarrow> pyfloat option" where
  "parse_inf_or_nan negative body =
     (let l = map to_lower body
      in if l = str_of ''inf'' \<or> l = str_of ''infinity''
         then Some (if negative then NegInf else PosInf)
         else if l = str_of ''nan'' then Some NaN
         else None)"

definition py_float :: "ustr \<Rightarrow> error + pyfloat" where
  "py_float s =
     (case remove_underscores (strip s) of
        None \<Rightarrow> Inl ValueError
      | Some t \<Rightarrow>
          (case split_sign t of
             (negative, body) \<Rightarrow>
               (case parse_decimal body of
                  Some q \<Rightarrow>
                    Inr (if q = 0 then signed_zero negative
                         else round_double (if negative then - q else q))
                | None \<Rightarrow>
                    (case parse_inf_or_nan negative body of
                       Some x \<Rightarrow> Inr x
                     | None \<Rightarrow> Inl ValueError))))"

subsection \<open>Writing values as text: \<open>str(v)\<close>\<close>

fun dec_digits :: "nat \<Rightarrow> ustr" where
  "dec_digits n = (if n < 10 then [48 + n] else dec_digits (n div 10) @ [48 + n mod 10])"

definition str_int :: "int \<Rightarrow> ustr" where
  "str_int i = (if i < 0 then 45 # dec_digits (nat (- i)) else dec_digits (nat i))"

text \<open>
  The text of a float is the shortest decimal that reads back as the same float (among
  those the nearest one), in positional notation unless the decimal exponent is below
  \<open>-4\<close> or at least \<open>16\<close>. \<open>repr_candidate a k n\<close> looks for such a decimal with \<open>n\<close>
  significant digits, as a pair (digits as an integer, power of ten).
\<close>

definition repr_candidate :: "rat \<Rightarrow> int \<Rightarrow> nat \<Rightarrow> (int \<times> int) option" where
  "repr_candidate a k n =
     (let e = k + 1 - int n;
          lo = \<lfloor>a / 10 powi e\<rfloor>;
          hi = lo + 1;
          lo_ok = (round_double (of_int lo * 10 powi e) = Finite a);
          hi_ok = (round_double (of_int hi * 10 powi e) = Finite a);
          dlo = a - of_int lo * 10 powi e;
          dhi = of_int hi * 10 powi e - a
      in if lo_ok \<and> hi_ok then
           Some (if dlo < dhi then lo else if dhi < dlo then hi else if even lo then lo else hi, e)
         else if lo_ok then Some (lo, e)
         else if hi_ok then Some (hi, e)
         else None)"

fun shortest :: "nat \<Rightarrow> nat \<Rightarrow> rat \<Rightarrow> int \<times> int" where
  "shortest 0 n a = (rne (a / 10 powi (ilog 10 a + 1 - int n)), ilog 10 a + 1 - int n)"
| "shortest (Suc fuel) n a =
     (case repr_candidate a (ilog 10 a) n of
        Some c \<Rightarrow> c
      | None \<Rightarrow> shortest fuel (Suc n) a)"

definition repr_digits :: "rat \<Rightarrow> ustr \<times> int" where
  \<comment> \<open>the significant digits of a positive float and the position of its decimal point\<close>
  "repr_digits a =
     (case shortest 16 1 a of
        (m, e) \<Rightarrow>
          (rev (dropWhile (\<lambda>c. c = 48) (rev (dec_digits (nat m)))),
           e + int (length (dec_digits (nat m)))))"

definition format_repr :: "ustr \<Rightarrow> int \<Rightarrow> ustr" where
  "format_repr ds decpt =
     (if decpt \<le> - 4 \<or> 16 < decpt then
        take 1 ds @ (if length ds \<le> 1 then [] else 46 # drop 1 ds) @ [101] @
        (if decpt - 1 < 0 then [45] else [43]) @
        (if \<bar>decpt - 1\<bar> < 10 then [48] else []) @ dec_digits (nat \<bar>decpt - 1\<bar>)
      else if decpt \<le> 0 then str_of ''0.'' @ replicate (nat (- decpt)) 48 @ ds
      else if int (length ds) \<le> decpt
        then ds @ replicate (nat (decpt - int (length ds))) 48 @ str_of ''.0''
      else take (nat decpt) ds @ [46] @ drop (nat decpt) ds)"

definition float_repr :: "pyfloat \<Rightarrow> ustr" where
  "float_repr x =
     (case x of
        NaN \<Rightarrow> str_of ''nan''
      | PosInf \<Rightarrow> str_of ''inf''
      | NegInf \<Rightarrow> str_of ''-inf''
      | NegZero \<Rightarrow> str_of ''-0.0''
      | Finite q \<Rightarrow>
          if q = 0 then str_of ''0.0''
          else (if q < 0 then [45] else []) @
               (case repr_digits \<bar>q\<bar> of (ds, decpt) \<Rightarrow> format_repr ds decpt))"

fun py_str :: "pyval \<Rightarrow> ustr" where
  "py_str (PNum (PInt i)) = str_int i"
| "py_str (PNum (PFloat x)) = float_repr x"
| "py_str (PStr s) = s"

section \<open>The transformations (class Action and its subclasses)\<close>

text \<open>
  An action object after its constructor has run: the \<open>use_default\<close> flag first, then the
  attributes the constructor stored. \<open>ActionDefault\<close> has no attribute of its own; its
  constructor sets the flag.
\<close>

datatype action =
    ActionDefault
  | ActionScaleInt bool pynum
      \<comment> \<open>\<open>use_default\<close>, \<open>scale\<close>\<close>
  | ActionScaleFloat bool pynum int
      \<comment> \<open>\<open>use_default\<close>, \<open>scale\<close>, \<open>precision\<close>\<close>
  | ActionHardcode bool pyval
      \<comment> \<open>\<open>use_default\<close>, \<open>val\<close>\<close>
  | ActionGodMode bool pynum pynum pynum pyfloat
      \<comment> \<open>\<open>use_default\<close>, \<open>start_pct\<close>, \<open>end_pct\<close>, \<open>steps\<close>, \<open>step\<close>\<close>
  | ActionFishingChance bool pynum pynum
      \<comment> \<open>\<open>use_default\<close>, \<open>min_chance\<close>, \<open>min_rooms\<close>\<close>

text \<open>The constructors that compute: \<open>1/scale\<close> when \<open>inverse\<close> is set, and the God Mode step.\<close>

definition init_scale :: "pynum \<Rightarrow> bool \<Rightarrow> error + pynum" where
  "init_scale scale inverted =
     (if inverted then
        (case py_truediv (PInt 1) scale of Inl e \<Rightarrow> Inl e | Inr f \<Rightarrow> Inr (PFloat f))
      else Inr scale)"

definition ActionScaleInt_init :: "pynum \<Rightarrow> bool \<Rightarrow> bool \<Rightarrow> error + action" where
  "ActionScaleInt_init scale inverted use_dflt =
     (case init_scale scale inverted of
        Inl e \<Rightarrow> Inl e
      | Inr s \<Rightarrow> Inr (ActionScaleInt use_dflt s))"

definition ActionScaleFloat_init :: "pynum \<Rightarrow> bool \<Rightarrow> int \<Rightarrow> bool \<Rightarrow> error + action" where
  "ActionScaleFloat_init scale inverted precision use_dflt =
     (case init_scale scale inverted of
        Inl e \<Rightarrow> Inl e
      | Inr s \<Rightarrow> Inr (ActionScaleFloat use_dflt s precision))"

definition ActionGodMode_init :: "pynum \<Rightarrow> pynum \<Rightarrow> pynum \<Rightarrow> bool \<Rightarrow> error + action" where
  "ActionGodMode_init start_pct end_pct steps use_dflt =
     (case py_sub end_pct start_pct of
        Inl e \<Rightarrow> Inl e
      | Inr d \<Rightarrow>
          (case py_truediv d steps of
             Inl e \<Rightarrow> Inl e
           | Inr st \<Rightarrow> Inr (ActionGodMode use_dflt start_pct end_pct steps st)))"

fun use_default :: "action \<Rightarrow> bool" where
  "use_default ActionDefault = True"
| "use_default (ActionScaleInt u _) = u"
| "use_default (ActionScaleFloat u _ _) = u"
| "use_default (ActionHardcode u _) = u"
| "use_default (ActionGodMode u _ _ _ _) = u"
| "use_default (ActionFishingChance u _ _) = u"

text \<open>
  The method \<open>_process\<close> of each class. The arguments are the macro name and the default
  text of the macro.
\<close>

fun process_impl :: "action \<Rightarrow> ustr \<Rightarrow> ustr \<Rightarrow> error + pyval" where
  "process_impl ActionDefault name dflt = Inr (PStr dflt)"
| "process_impl (ActionScaleInt u scale) name dflt =
     (case py_float dflt of
        Inl e \<Rightarrow> Inl e
      | Inr x \<Rightarrow>
          (case py_mul_float x scale of
             Inl e \<Rightarrow> Inl e
           | Inr new_val \<Rightarrow>
               (case py_floor (fadd new_val (Finite (1 / 2))) of
                  Inl e \<Rightarrow> Inl e
                | Inr i \<Rightarrow> Inr (PNum (PInt i)))))"
| "process_impl (ActionScaleFloat u scale precision) name dflt =
     (case py_float dflt of
        Inl e \<Rightarrow> Inl e
      | Inr x \<Rightarrow>
          (case py_mul_float x scale of
             Inl e \<Rightarrow> Inl e
           | Inr new_val \<Rightarrow>
               (case py_round new_val precision of
                  Inl e \<Rightarrow> Inl e
                | Inr r \<Rightarrow> Inr (PNum (PFloat r)))))"
| "process_impl (ActionHardcode u val) name dflt = Inr val"
| "process_impl (ActionGodMode u start_pct end_pct steps step) name dflt =
     (if name = str_of ''godmode_base_scale'' then Inr (PNum start_pct)
      else if name = str_of ''godmode_per_death'' then
        (case py_round step 6 of Inl e \<Rightarrow> Inl e | Inr r \<Rightarrow> Inr (PNum (PFloat r)))
      else if name = str_of ''godmode_death_cap'' then Inr (PNum steps)
      else Inl (RuntimeError ''Unknown GodMode macro name''))"
| "process_impl (ActionFishingChance u min_chance min_rooms) name dflt =
     (if name = str_of ''fishing_chance'' then
        (case py_float dflt of
           Inl e \<Rightarrow> Inl e
         | Inr x \<Rightarrow> Inr (PNum (py_max (PFloat x) min_chance)))
      else if name = str_of ''fishing_room_space'' then
        (case py_int dflt of
           Inl e \<Rightarrow> Inl e
         | Inr i \<Rightarrow> Inr (PNum (py_min (PInt i) min_rooms)))
      else Inl (RuntimeError ''Unknown Fishing macro name''))"

definition process :: "action \<Rightarrow> ustr \<Rightarrow> ustr \<Rightarrow> error + pyval" where
  "process a name dflt = (if use_default a then Inr (PStr dflt) else process_impl a name dflt)"

section \<open>Text encodings\<close>

datatype codec = Utf8 | Ascii

definition encode_ascii :: "ustr \<Rightarrow> error + bytes" where
  "encode_ascii s =
     (if list_all (\<lambda>c. c < 128) s then Inr (map of_nat s) else Inl UnicodeEncodeError)"

definition utf8_char :: "nat \<Rightarrow> bytes option" where
  "utf8_char c =
     (if c < 0x80 then Some [of_nat c]
      else if c < 0x800 then Some [of_nat (0xC0 + c div 64), of_nat (0x80 + c mod 64)]
      else if 0xD800 \<le> c \<and> c \<le> 0xDFFF then None
      else if c < 0x10000 then
        Some [of_nat (0xE0 + c div 4096), of_nat (0x80 + c div 64 mod 64),
              of_nat (0x80 + c mod 64)]
      else if c < 0x110000 then
        Some [of_nat (0xF0 + c div 262144), of_nat (0x80 + c div 4096 mod 64),
              of_nat (0x80 + c div 64 mod 64), of_nat (0x80 + c mod 64)]
      else None)"

fun encode_utf8 :: "ustr \<Rightarrow> error + bytes" where
  "encode_utf8 [] = Inr []"
| "encode_utf8 (c # cs) =
     (case utf8_char c of
        None \<Rightarrow> Inl UnicodeEncodeError
      | Some b \<Rightarrow> (case encode_utf8 cs of Inl e \<Rightarrow> Inl e | Inr bs \<Rightarrow> Inr (b @ bs)))"

fun encode :: "codec \<Rightarrow> ustr \<Rightarrow> error + bytes" where
  \<comment> \<open>\<open>text.encode(encoding)\<close>\<close>
  "encode Utf8 s = encode_utf8 s"
| "encode Ascii s = encode_ascii s"

definition BOM_UTF8 :: bytes where
  \<comment> \<open>\<open>codecs.BOM_UTF8\<close>\<close>
  "BOM_UTF8 = [0xEF, 0xBB, 0xBF]"

definition BOM_UTF8_decoded :: ustr where
  \<comment> \<open>\<open>codecs.BOM_UTF8.decode('utf-8')\<close>: the single code point U+FEFF\<close>
  "BOM_UTF8_decoded = [0xFEFF]"

section \<open>The byte-faithful text channel (class TextProcessor)\<close>

text \<open>
  What the reads of a template file observe: the answer of \<open>chardet.detect\<close> on its first
  1024 bytes, the text the platform decodes from it (before newline translation), and the
  value of the \<open>newlines\<close> attribute of the text stream after its first \<open>readline()\<close>
  (\<open>None\<close>, one terminator, or a tuple of several).
\<close>

datatype newlines_attr = NewlinesNone | NewlinesStr ustr | NewlinesTuple

record source_file =
  chardet_confidence :: pyfloat
  chardet_encoding :: "string option"
  newlines_seen :: newlines_attr
  content :: ustr

text \<open>
  Universal newline translation of a text stream opened without a \<open>newline\<close> argument:
  \<open>\r\n\<close> and a lone \<open>\r\<close> are read as \<open>\n\<close>. Iterating over the stream yields the lines,
  each with its \<open>\n\<close>; only the last one can lack it.
\<close>

fun universal_newlines :: "ustr \<Rightarrow> ustr" where
  "universal_newlines [] = []"
| "universal_newlines [c] = (if c = 13 then [10] else [c])"
| "universal_newlines (c # d # cs) =
     (if c = 13 \<and> d = 10 then 10 # universal_newlines cs
      else if c = 13 then 10 # universal_newlines (d # cs)
      else c # universal_newlines (d # cs))"

fun readlines_acc :: "ustr \<Rightarrow> ustr \<Rightarrow> ustr list" where
  "readlines_acc acc [] = (if acc = [] then [] else [rev acc])"
| "readlines_acc acc (c # cs) =
     (if c = 10 then rev (c # acc) # readlines_acc [] cs else readlines_acc (c # acc) cs)"

definition readlines :: "ustr \<Rightarrow> ustr list" where
  "readlines s = readlines_acc [] (universal_newlines s)"

record text_processor =
  filename_orig :: string
  filename_new :: string
  written_line :: bool
  orig_encoding :: "string option"
  encoding :: codec
  bom :: "bytes option"
  newline :: bytes
  data :: "ustr list"
  odf :: "string option"

text \<open>The \<open>match self.orig_encoding\<close> statement of the constructor.\<close>

definition process_encoding :: "string option \<Rightarrow> error + codec \<times> bytes option" where
  "process_encoding label =
     (if label = Some ''UTF-8-SIG'' then Inr (Utf8, Some BOM_UTF8)
      else if label = Some ''ascii'' then Inr (Ascii, None)
      else Inl (RuntimeError ''Unknown encoding''))"

text \<open>
  The slices of the reading loop: \<open>line[len(bom.decode(encoding)):-1]\<close> for the first line
  of a file with a BOM, \<open>line[:-1]\<close> for every other line.
\<close>

fun extract_lines :: "bytes option \<Rightarrow> bool \<Rightarrow> ustr list \<Rightarrow> ustr list" where
  "extract_lines b first [] = []"
| "extract_lines b first (line # rest) =
     (if first then
        (if b \<noteq> None then drop (length BOM_UTF8_decoded) (butlast line) else butlast line)
          # extract_lines b False rest
      else butlast line # extract_lines b False rest)"

definition TextProcessor_init :: "source_file \<Rightarrow> string \<Rightarrow> string \<Rightarrow> error + text_processor" where
  "TextProcessor_init src fn_orig fn_new =
     (if float_lt (chardet_confidence src) (round_double (9 / 10))
      then Inl (RuntimeError ''Character detection not confident enough'')
      else
        case process_encoding (chardet_encoding src) of
          Inl e \<Rightarrow> Inl e
        | Inr (enc, b) \<Rightarrow>
            (case newlines_seen src of
               NewlinesNone \<Rightarrow> Inl (RuntimeError ''Unknown line endings'')
             | NewlinesTuple \<Rightarrow> Inl AttributeError
             | NewlinesStr nl \<Rightarrow>
                 (case encode enc nl of
                    Inl e \<Rightarrow> Inl e
                  | Inr nlb \<Rightarrow>
                      Inr \<lparr> filename_orig = fn_orig, filename_new = fn_new,
                            written_line = False,
                            orig_encoding = chardet_encoding src,
                            encoding = enc, bom = b, newline = nlb,
                            data = extract_lines b True (readlines (content src)),
                            odf = None \<rparr>)))"

subsection \<open>The output side\<close>

text \<open>
  The world of a run: what reading each template file observes (\<open>sources\<close>, never
  changed), the files the program writes (name to content), the directories it made, and
  the messages it printed.
\<close>

datatype message = Processing string | WarningKeyNotFound ustr

record world =
  sources :: "string \<rightharpoonup> source_file"
  files :: "string \<rightharpoonup> bytes"
  dirs :: "string set"
  stdout :: "message list"

definition odf_write :: "string option \<Rightarrow> bytes \<Rightarrow> world \<Rightarrow> (error + unit) \<times> world" where
  \<comment> \<open>\<open>self.odf.write(bs)\<close>; \<open>self.odf\<close> is \<open>None\<close> until \<open>__enter__\<close> has run\<close>
  "odf_write h bs w =
     (case h of
        None \<Rightarrow> (Inl AttributeError, w)
      | Some p \<Rightarrow>
          (Inr (), w\<lparr>files := (files w)(p \<mapsto> (case files w p of None \<Rightarrow> bs | Some old \<Rightarrow> old @ bs))\<rparr>))"

definition TextProcessor_enter :: "text_processor \<Rightarrow> world \<Rightarrow> text_processor \<times> world" where
  "TextProcessor_enter tp w =
     (let w1 = w\<lparr>files := (files w)(filename_new tp \<mapsto> [])\<rparr>;
          tp1 = tp\<lparr>odf := Some (filename_new tp)\<rparr>
      in case bom tp of
           None \<Rightarrow> (tp1, w1)
         | Some b \<Rightarrow> (tp1, snd (odf_write (odf tp1) b w1)))"

definition TextProcessor_write ::
  "text_processor \<Rightarrow> ustr \<Rightarrow> world \<Rightarrow> (error + text_processor) \<times> world" where
  "TextProcessor_write tp txt w =
     (case (if written_line tp then odf_write (odf tp) (newline tp) w else (Inr (), w)) of
        (Inl e, w1) \<Rightarrow> (Inl e, w1)
      | (Inr _, w1) \<Rightarrow>
          (case encode (encoding tp) txt of
             Inl e \<Rightarrow> (Inl e, w1)
           | Inr encoded \<Rightarrow>
               (case odf_write (odf tp) encoded w1 of
                  (Inl e, w2) \<Rightarrow> (Inl e, w2)
                | (Inr _, w2) \<Rightarrow> (Inr (tp\<lparr>written_line := True\<rparr>), w2))))"



section \<open>The macro pattern and the driver (class App)\<close>

text \<open>
  \<open>macro_re = '^(?P<start>.*)@(?P<name>[a-z_]+)\|(?P<default>.*?)@(?P<end>.*)$'\<close>, tried
  with \<open>match\<close>. The matcher follows the backtracking search of the pattern: the longest
  \<open>start\<close> first, the shortest \<open>default\<close> first; \<open>.\<close> matches every character but
  \<open>\n\<close>, and \<open>$\<close> matches at the end of the text or before a final \<open>\n\<close>.
\<close>

record macro_match =
  m_start :: ustr
  m_name :: ustr
  m_default :: ustr
  m_end :: ustr

definition is_name_char :: "nat \<Rightarrow> bool" where
  \<comment> \<open>\<open>[a-z_]\<close>\<close>
  "is_name_char c = ((97 \<le> c \<and> c \<le> 122) \<or> c = 95)"

definition match_end :: "ustr \<Rightarrow> ustr option" where
  \<comment> \<open>\<open>(?P<end>.*)$\<close> on the rest of the text\<close>
  "match_end cs =
     (if 10 \<notin> set cs then Some cs
      else if cs \<noteq> [] \<and> last cs = 10 \<and> 10 \<notin> set (butlast cs) then Some (butlast cs)
      else None)"

fun match_default :: "ustr \<Rightarrow> ustr \<Rightarrow> (ustr \<times> ustr) option" where
  \<comment> \<open>\<open>(?P<default>.*?)@(?P<end>.*)$\<close>; the first argument is the default read so far, reversed\<close>
  "match_default acc [] = None"
| "match_default acc (c # cs) =
     (case (if c = 64 then match_end cs else None) of
        Some e \<Rightarrow> Some (rev acc, e)
      | None \<Rightarrow> if c = 10 then None else match_default (c # acc) cs)"

definition match_name :: "ustr \<Rightarrow> (ustr \<times> ustr \<times> ustr) option" where
  \<comment> \<open>\<open>(?P<name>[a-z_]+)\|\<close> and what follows, on the text after the opening \<open>@\<close>\<close>
  "match_name cs =
     (let name = takeWhile is_name_char cs
      in if name = [] then None
         else case dropWhile is_name_char cs of
                [] \<Rightarrow> None
              | c # r \<Rightarrow>
                  if c = 124 then
                    (case match_default [] r of
                       None \<Rightarrow> None
                     | Some (d, e) \<Rightarrow> Some (name, d, e))
                  else None)"

fun match_start :: "ustr \<Rightarrow> ustr \<Rightarrow> macro_match option" where
  \<comment> \<open>\<open>(?P<start>.*)@\<close> and what follows; the first argument is the start read so far, reversed\<close>
  "match_start acc [] = None"
| "match_start acc (c # cs) =
     (case (if c = 10 then None else match_start (c # acc) cs) of
        Some m \<Rightarrow> Some m
      | None \<Rightarrow>
          if c = 64 then
            (case match_name cs of
               None \<Rightarrow> None
             | Some (n, d, e) \<Rightarrow>
                 Some \<lparr>m_start = rev acc, m_name = n, m_default = d, m_end = e\<rparr>)
          else None)"

definition macro_re_match :: "ustr \<Rightarrow> macro_match option" where
  "macro_re_match line = match_start [] line"

record app =
  template_dir :: string
  live_dir :: string
  changes :: "ustr \<rightharpoonup> action"

text \<open>The body of the loop over the lines of a file.\<close>

definition process_line ::
  "app \<Rightarrow> text_processor \<Rightarrow> ustr \<Rightarrow> world \<Rightarrow> (error + text_processor) \<times> world" where
  "process_line a tp line w =
     (case macro_re_match line of
        Some m \<Rightarrow>
          (case (case changes a (m_name m) of
                   Some act \<Rightarrow> (act, w)
                 | None \<Rightarrow>
                     (ActionDefault, w\<lparr>stdout := stdout w @ [WarningKeyNotFound (m_name m)]\<rparr>)) of
             (act, w1) \<Rightarrow>
               (case process act (m_name m) (m_default m) of
                  Inl e \<Rightarrow> (Inl e, w1)
                | Inr v \<Rightarrow> TextProcessor_write tp (m_start m @ py_str v @ m_end m) w1))
      | None \<Rightarrow> TextProcessor_write tp line w)"

fun process_lines ::
  "app \<Rightarrow> text_processor \<Rightarrow> ustr list \<Rightarrow> world \<Rightarrow> (error + text_processor) \<times> world" where
  "process_lines a tp [] w = (Inr tp, w)"
| "process_lines a tp (line # rest) w =
     (case process_line a tp line w of
        (Inl e, w1) \<Rightarrow> (Inl e, w1)
      | (Inr tp1, w1) \<Rightarrow> process_lines a tp1 rest w1)"

text \<open>\<open>os.path.join\<close> of two parts and \<open>os.path.dirname\<close>, on POSIX paths.\<close>

definition os_path_join :: "string \<Rightarrow> string \<Rightarrow> string" where
  "os_path_join a b =
     (if take 1 b = ''/'' then b
      else if a = [] \<or> last a = CHR ''/'' then a @ b
      else a @ ''/'' @ b)"

definition os_path_dirname :: "string \<Rightarrow> string" where
  "os_path_dirname p =
     (let head = rev (dropWhile (\<lambda>c. c \<noteq> CHR ''/'') (rev p))
      in if head \<noteq> [] \<and> \<not> list_all (\<lambda>c. c = CHR ''/'') head
         then rev (dropWhile (\<lambda>c. c = CHR ''/'') (rev head))
         else head)"

text \<open>
  \<open>process_file\<close>: the progress message, the destination directory (made when nothing of
  that name exists; only the directory itself is recorded, not the ancestors made with
  it), then the \<open>with TextProcessor(...) as tp\<close> block. The constructor runs before
  \<open>__enter__\<close> opens the destination file; \<open>__exit__\<close> closes it also when the block raised.
  A template that cannot be opened is an \<open>OSError\<close>; failures of the operating system
  while making the directory or opening the destination are not modelled.
\<close>

definition process_file :: "app \<Rightarrow> string \<Rightarrow> world \<Rightarrow> (error + unit) \<times> world" where
  "process_file a filename w =
     (let w1 = w\<lparr>stdout := stdout w @ [Processing filename]\<rparr>;
          filename_template = os_path_join (template_dir a) filename;
          filename_live = os_path_join (live_dir a) filename;
          dirname_live = os_path_dirname filename_live
      in let w2 = (if dirname_live \<notin> dirs w1 \<and> files w1 dirname_live = None
                   then w1\<lparr>dirs := insert dirname_live (dirs w1)\<rparr> else w1)
         in case sources w2 filename_template of
              None \<Rightarrow> (Inl OSError, w2)
            | Some src \<Rightarrow>
                (case TextProcessor_init src filename_template filename_live of
                   Inl e \<Rightarrow> (Inl e, w2)
                 | Inr tp \<Rightarrow>
                     (case TextProcessor_enter tp w2 of
                        (tp1, w3) \<Rightarrow>
                          (case process_lines a tp1 (data tp1) w3 of
                             (Inl e, w4) \<Rightarrow> (Inl e, w4)
                           | (Inr _, w4) \<Rightarrow> (Inr (), w4)))))"

text \<open>
  \<open>process_files\<close>: \<open>os.walk\<close> yields the directories of the template tree with their file
  names, in an order the program does not choose; the first exception ends the run.
\<close>

fun process_names :: "app \<Rightarrow> string \<Rightarrow> string list \<Rightarrow> world \<Rightarrow> (error + unit) \<times> world" where
  "process_names a dirpath [] w = (Inr (), w)"
| "process_names a dirpath (filename # rest) w =
     (case process_file a
             (drop (length (template_dir a) + 1) (os_path_join dirpath filename)) w of
        (Inl e, w1) \<Rightarrow> (Inl e, w1)
      | (Inr _, w1) \<Rightarrow> process_names a dirpath rest w1)"

fun process_files :: "app \<Rightarrow> (string \<times> string list) list \<Rightarrow> world \<Rightarrow> (error + unit) \<times> world" where
  "process_files a [] w = (Inr (), w)"
| "process_files a ((dirpath, filenames) # rest) w =
     (case process_names a dirpath filenames w of
        (Inl e, w1) \<Rightarrow> (Inl e, w1)
      | (Inr _, w1) \<Rightarrow> process_files a rest w1)"

definition exit_status :: "(error + unit) \<times> world \<Rightarrow> nat" where
  \<comment> \<open>the status of the process: an uncaught exception ends it with status 1\<close>
  "exit_status r = (case fst r of Inl _ \<Rightarrow> 1 | Inr _ \<Rightarrow> 0)"

section \<open>Floating point: rounding lemmas\<close>

text \<open>
  \<open>ilog\<close> and \<open>rne\<close> are what their names say; \<open>round_double\<close> returns values of the
  format only and leaves them unchanged. The lemmas with a certificate
  (\<open>round_double_cert_pos\<close>, \<open>ilog_eqI\<close>, \<open>rne_eqI\<close>) evaluate a rounding from its result.
\<close>

lemma two_powi_pos: "0 < (2::rat) powi k"
  by simp

lemma two_powi_less_iff: "(2::rat) powi i < 2 powi j \<longleftrightarrow> i < j"
  by (metis power_int_strict_increasing power_int_increasing linorder_not_less one_less_numeral_iff
        semiring_norm(76) order_less_imp_le)

lemma two_powi_le_iff: "(2::rat) powi i \<le> 2 powi j \<longleftrightarrow> i \<le> j"
  by (metis two_powi_less_iff linorder_not_less)

lemma powi_less_iff:
  fixes x :: rat
  assumes "1 < x"
  shows "x powi i < x powi j \<longleftrightarrow> i < j"
  by (metis assms power_int_strict_increasing power_int_increasing linorder_not_less
        order_less_imp_le)

lemma ilog_bounds:
  assumes "0 < a" and "1 < b"
  shows "of_nat b powi (ilog b a) \<le> a \<and> a < of_nat b powi (ilog b a + 1)"
proof -
  define B :: rat where "B = of_nat b"
  have B1: "1 < B" "0 < B" "B \<noteq> 0" using assms(2) by (simp_all add: B_def)
  obtain p q where pq: "quotient_of a = (p, q)" by (cases "quotient_of a")
  have q: "0 < q" by (rule quotient_of_denom_pos [OF pq])
  have a: "a = of_int p / of_int q" by (rule quotient_of_div [OF pq])
  have p: "0 < p" using assms q by (simp add: a zero_less_divide_iff)
  define P Q where "P = nat p" and "Q = nat q"
  define fp fq where "fp = floorlog b P" and "fq = floorlog b Q"
  have P: "0 < P" "of_int p = (of_nat P :: rat)" using p by (simp_all add: P_def)
  have Q: "0 < Q" "of_int q = (of_nat Q :: rat)" using q by (simp_all add: Q_def)
  have bp: "b ^ (fp - 1) \<le> P" "P < b ^ fp"
    using floorlog_bounds [of P b] P(1) assms(2) by (simp_all add: fp_def)
  have bq: "b ^ (fq - 1) \<le> Q" "Q < b ^ fq"
    using floorlog_bounds [of Q b] Q(1) assms(2) by (simp_all add: fq_def)
  have f1: "1 \<le> fp" "1 \<le> fq"
    using P(1) Q(1) assms(2) floorlog_eq_zero_iff [of b P] floorlog_eq_zero_iff [of b Q]
    by (simp_all add: fp_def fq_def Suc_le_eq)
  have rp: "B ^ (fp - 1) \<le> of_nat P" "of_nat P < B ^ fp"
    unfolding B_def using bp
    by (metis of_nat_le_iff of_nat_power, metis of_nat_less_iff of_nat_power)
  have rq: "B ^ (fq - 1) \<le> of_nat Q" "of_nat Q < B ^ fq"
    unfolding B_def using bq
    by (metis of_nat_le_iff of_nat_power, metis of_nat_less_iff of_nat_power)
  define k where "k = int fp - int fq"
  have aPQ: "a = of_nat P / of_nat Q" by (simp add: a P Q)
  have Qpos: "(0::rat) < of_nat Q" using Q(1) by simp
  have up: "a < B powi (k + 1)"
  proof -
    have "B powi (k + 1) * B ^ (fq - 1) = B powi (k + 1) * B powi (int (fq - 1))"
      by simp
    also have "\<dots> = B powi (k + 1 + int (fq - 1))"
      using B1 by (simp add: power_int_add)
    also have "k + 1 + int (fq - 1) = int fp"
      using f1 by (simp add: k_def)
    finally have e: "B powi (k + 1) * B ^ (fq - 1) = B ^ fp" by simp
    have "of_nat P < B powi (k + 1) * B ^ (fq - 1)"
      using rp(2) e by simp
    also have "\<dots> \<le> B powi (k + 1) * of_nat Q"
      using rq(1) B1 by (simp add: mult_left_mono)
    finally show ?thesis
      using Qpos by (simp add: aPQ pos_divide_less_eq)
  qed
  have lo: "B powi (k - 1) < a"
  proof -
    have "B powi (k - 1) * B ^ fq = B powi (k - 1) * B powi (int fq)"
      by simp
    also have "\<dots> = B powi (k - 1 + int fq)"
      using B1 by (simp add: power_int_add)
    also have "k - 1 + int fq = int (fp - 1)"
      using f1 by (simp add: k_def)
    finally have e: "B powi (k - 1) * B ^ fq = B ^ (fp - 1)" by simp
    have "B powi (k - 1) * of_nat Q < B powi (k - 1) * B ^ fq"
      using rq(2) B1 by (simp add: mult_strict_left_mono)
    also have "\<dots> \<le> of_nat P"
      using rp(1) e by simp
    finally show ?thesis
      using Qpos by (simp add: aPQ pos_less_divide_eq)
  qed
  have il: "ilog b a = (if B powi k \<le> a then k else k - 1)"
    by (simp add: ilog_def pq Let_def k_def fp_def fq_def P_def Q_def B_def)
  show ?thesis
  proof (cases "B powi k \<le> a")
    case True
    with up il show ?thesis by (simp add: B_def)
  next
    case False
    with lo il show ?thesis by (simp add: B_def)
  qed
qed

lemma ilog_eqI:
  assumes "0 < a" and "1 < b" and "of_nat b powi k \<le> a" and "a < of_nat b powi (k + 1)"
  shows "ilog b a = k"
proof -
  define B :: rat where "B = of_nat b"
  have B1: "1 < B" using assms(2) by (simp add: B_def)
  note i = ilog_bounds [OF assms(1,2), folded B_def]
  from i assms(4) have "B powi (ilog b a) < B powi (k + 1)" unfolding B_def by linarith
  then have "ilog b a < k + 1" by (simp only: powi_less_iff [OF B1])
  moreover from i assms(3) have "B powi k < B powi (ilog b a + 1)" unfolding B_def by linarith
  then have "k < ilog b a + 1" by (simp only: powi_less_iff [OF B1])
  ultimately show ?thesis by simp
qed

lemma ilog2_bounds:
  assumes "0 < a"
  shows "2 powi (ilog 2 a) \<le> a \<and> a < 2 powi (ilog 2 a + 1)"
  using ilog_bounds [OF assms, of 2] by simp

lemma rne_of_int: "rne (of_int k) = k"
  by (simp add: rne_def)

lemma rne_bounds: "x - 1 / 2 \<le> of_int (rne x) \<and> of_int (rne x) \<le> x + 1 / 2"
  unfolding rne_def Let_def
  by (auto simp: not_less) linarith+

lemma is_double_0: "is_double 0"
  unfolding is_double_def by (intro exI [of _ 0]) simp

lemma powi_split: 
  assumes "e' \<le> e"
  shows "(2::rat) powi e = of_int (2 ^ nat (e - e')) * 2 powi e'"
proof -
  have "(2::rat) powi e = 2 powi ((e - e') + e')" by simp
  also have "\<dots> = 2 powi (e - e') * 2 powi e'"
    by (rule power_int_add) simp
  also have "(2::rat) powi (e - e') = 2 ^ nat (e - e')"
    using assms by (simp add: power_int_nonneg_exp)
  finally show ?thesis by simp
qed

lemma round_double_pos:
  assumes "0 < a" and "B = 2 powi 1024"
  shows "round_double a =
     (let e = max (ilog 2 a - 52) (- 1074); m = rne (a / 2 powi e); v = of_int m * 2 powi e
      in if B \<le> v then PosInf else if m = 0 then Finite 0 else Finite v)"
  using assms by (simp add: round_double_def Let_def)

lemma round_double_neg:
  assumes "a < 0" and "B = 2 powi 1024"
  shows "round_double a =
     (let e = max (ilog 2 (- a) - 52) (- 1074); m = rne (- a / 2 powi e); v = of_int m * 2 powi e
      in if B \<le> v then NegInf else if m = 0 then NegZero else Finite (- v))"
  using assms by (simp add: round_double_def Let_def)

lemma of_int_less_two_power: "M < 2 ^ n \<Longrightarrow> (of_int M :: rat) < 2 ^ n"
  by (metis of_int_less_iff of_int_numeral of_int_power)

lemma pos_scaled_exact:
  assumes "0 < M" and "M < 2 ^ 53" and "- 1074 \<le> e" and "e \<le> 971"
  defines "a \<equiv> of_int M * 2 powi e"
  defines "e' \<equiv> max (ilog 2 a - 52) (- 1074)"
  shows "of_int (rne (a / 2 powi e')) * 2 powi e' = a \<and> rne (a / 2 powi e') \<noteq> 0
         \<and> a < 2 powi 1024 \<and> 0 < a"
proof -
  have apos: "0 < a" using assms(1) by (simp add: a_def)
  note b = ilog2_bounds [OF apos]
  have "a < 2 ^ 53 * 2 powi e"
    unfolding a_def using of_int_less_two_power [OF assms(2)]
    by (simp add: mult_strict_right_mono)
  also have "\<dots> = 2 powi 53 * 2 powi e" by simp
  also have "\<dots> = 2 powi (53 + e)"
    by (rule power_int_add [symmetric]) simp
  finally have a53: "a < 2 powi (53 + e)" .
  with b have "(2::rat) powi (ilog 2 a) < 2 powi (53 + e)" by linarith
  then have "ilog 2 a < 53 + e" by (simp only: two_powi_less_iff)
  with assms(3) have le: "e' \<le> e" by (simp add: e'_def)
  define n where "n = nat (e - e')"
  have sp: "(2::rat) powi e = of_int (2 ^ n) * 2 powi e'"
    unfolding n_def by (rule powi_split [OF le])
  have a': "a = of_int (M * 2 ^ n) * 2 powi e'"
    unfolding a_def sp by simp
  have "a / 2 powi e' = of_int (M * 2 ^ n)"
    unfolding a' by simp
  then have r: "rne (a / 2 powi e') = M * 2 ^ n"
    by (simp only: rne_of_int)
  have v: "of_int (rne (a / 2 powi e')) * 2 powi e' = a"
    unfolding r using a' by simp
  have nz: "rne (a / 2 powi e') \<noteq> 0"
    unfolding r using assms(1) by simp
  have "53 + e \<le> 1024" using assms(4) by simp
  then have "(2::rat) powi (53 + e) \<le> 2 powi 1024"
    by (simp only: two_powi_le_iff)
  with a53 have "a < 2 powi 1024" by linarith
  with nz v apos show ?thesis by blast
qed

lemma round_double_exact_pos:
  assumes "0 < M" and "M < 2 ^ 53" and "- 1074 \<le> e" and "e \<le> 971"
  shows "round_double (of_int M * 2 powi e) = Finite (of_int M * 2 powi e)"
proof -
  define B :: rat where "B = 2 powi 1024"
  define a :: rat where "a = of_int M * 2 powi e"
  define e' where "e' = max (ilog 2 a - 52) (- 1074)"
  from pos_scaled_exact [OF assms] have
    "of_int (rne (a / 2 powi e')) * 2 powi e' = a \<and> rne (a / 2 powi e') \<noteq> 0 \<and> a < B \<and> 0 < a"
    unfolding e'_def a_def B_def .
  then have
    s: "of_int (rne (a / 2 powi e')) * 2 powi e' = a" "rne (a / 2 powi e') \<noteq> 0" "a < B" "0 < a"
    by blast+
  have "round_double a = Finite a"
    unfolding round_double_pos [OF s(4) B_def] Let_def e'_def [symmetric]
    using s by (simp add: not_le)
  then show ?thesis by (simp only: a_def)
qed

lemma round_double_minus_exact:
  assumes "0 < a" and "round_double a = Finite a"
  shows "round_double (- a) = Finite (- a)"
proof -
  define B :: rat where "B = 2 powi 1024"
  define e' where "e' = max (ilog 2 a - 52) (- 1074)"
  define m where "m = rne (a / 2 powi e')"
  from assms(2) have "(if B \<le> of_int m * 2 powi e' then PosInf
        else if m = 0 then Finite 0 else Finite (of_int m * 2 powi e')) = Finite a"
    unfolding round_double_pos [OF assms(1) B_def] Let_def e'_def [symmetric] m_def [symmetric] .
  then have f: "\<not> B \<le> of_int m * 2 powi e'" "m \<noteq> 0" "of_int m * 2 powi e' = a"
    using assms(1) by (auto split: if_splits)
  have neg: "- a < 0" using assms(1) by simp
  show ?thesis
    unfolding round_double_neg [OF neg B_def] Let_def
    using f by (simp add: e'_def [symmetric] m_def [symmetric])
qed

lemma round_double_idem:
  assumes "is_double q"
  shows "round_double q = Finite q"
proof -
  from assms obtain m e where q: "q = of_int m * 2 powi e" and m: "\<bar>m\<bar> < 2 ^ 53"
    and e: "- 1074 \<le> e" "e \<le> 971" unfolding is_double_def by blast
  consider "m = 0" | "0 < m" | "m < 0" by linarith
  then show ?thesis
  proof cases
    case 1
    then show ?thesis by (simp add: q round_double_def)
  next
    case 2
    with m have "m < 2 ^ 53" by simp
    from round_double_exact_pos [OF 2 this e] show ?thesis by (simp only: q)
  next
    case 3
    then have p: "0 < - m" "- m < 2 ^ 53" using m by simp_all
    have pos: "0 < of_int (- m) * (2::rat) powi e"
      using p(1) by (intro mult_pos_pos) simp_all
    from round_double_minus_exact [OF pos round_double_exact_pos [OF p e]]
    show ?thesis by (simp add: q)
  qed
qed

lemma is_double_minus: "is_double q \<Longrightarrow> is_double (- q)"
proof -
  assume "is_double q"
  then obtain m e where "q = of_int m * 2 powi e" "\<bar>m\<bar> < 2 ^ 53" "- 1074 \<le> e" "e \<le> 971"
    unfolding is_double_def by blast
  then have "- q = of_int (- m) * 2 powi e \<and> \<bar>- m\<bar> < 2 ^ 53 \<and> - 1074 \<le> e \<and> e \<le> 971"
    by simp
  then show ?thesis unfolding is_double_def by blast
qed

lemma int_le_of_rat_less:
  fixes m n :: int
  assumes "(of_int m :: rat) < of_int n + 1"
  shows "m \<le> n"
proof -
  have "(of_int m :: rat) < of_int (n + 1)" using assms by simp
  then have "m < n + 1" by (simp only: of_int_less_iff)
  then show ?thesis by simp
qed

lemma of_int_le_two_power: "M \<le> 2 ^ n \<Longrightarrow> (of_int M :: rat) \<le> 2 ^ n"
  by (metis of_int_le_iff of_int_numeral of_int_power)

lemma two_power_le_of_int: "2 ^ n \<le> M \<Longrightarrow> (2::rat) ^ n \<le> of_int M"
  by (metis of_int_le_iff of_int_numeral of_int_power)

lemma scaled_significand:
  assumes "0 < a"
  defines "e' \<equiv> max (ilog 2 a - 52) (- 1074)"
  defines "m \<equiv> rne (a / 2 powi e')"
  shows "0 \<le> m \<and> m \<le> 2 ^ 53 \<and> (e' \<noteq> - 1074 \<longrightarrow> 2 ^ 52 \<le> m)"
proof -
  note b = ilog2_bounds [OF assms(1)]
  define x where "x = a / 2 powi e'"
  have xpos: "0 < x" using assms(1) by (simp add: x_def)
  note rb = rne_bounds [of x]
  have m: "m = rne x" by (simp add: m_def x_def)
  have "(of_int (- 1) :: rat) < of_int m" using rb xpos unfolding m by simp
  then have "- 1 < m" by (simp only: of_int_less_iff)
  then have m0: "0 \<le> m" by simp
  have ek: "ilog 2 a + 1 - e' \<le> 53" by (simp add: e'_def)
  have "x < 2 powi (ilog 2 a + 1) / 2 powi e'"
    unfolding x_def using b by (simp add: divide_strict_right_mono)
  also have "\<dots> = 2 powi (ilog 2 a + 1 - e')"
    by (rule power_int_diff [symmetric]) simp
  also have "\<dots> \<le> 2 powi 53"
    using ek by (simp only: two_powi_le_iff)
  finally have x53: "x < 2 powi 53" .
  have "(of_int m :: rat) < of_int (2 ^ 53) + 1"
    using rb x53 unfolding m by simp
  then have m53: "m \<le> 2 ^ 53" by (rule int_le_of_rat_less)
  have lo: "2 ^ 52 \<le> m" if "e' \<noteq> - 1074"
  proof -
    from that have e: "e' = ilog 2 a - 52" by (simp add: e'_def max_def split: if_splits)
    have "(2::rat) powi 52 = 2 powi (ilog 2 a - e')" by (simp add: e)
    also have "\<dots> = 2 powi (ilog 2 a) / 2 powi e'"
      by (rule power_int_diff) simp
    also have "\<dots> \<le> x"
      unfolding x_def using b by (simp add: divide_right_mono)
    finally have "(2::rat) powi 52 \<le> x" .
    then have "(of_int (2 ^ 52 - 1) :: rat) < of_int m + 1"
      using rb unfolding m by simp
    then have "2 ^ 52 - 1 \<le> m" by (rule int_le_of_rat_less)
    moreover have "(of_int m :: rat) \<noteq> 2 ^ 52 - 1"
    proof
      assume h: "(of_int m :: rat) = 2 ^ 52 - 1"
      have "x \<le> of_int m + 1 / 2" using rb unfolding m by simp
      with \<open>2 powi 52 \<le> x\<close> h show False by simp
    qed
    then have "m \<noteq> 2 ^ 52 - 1"
      by (metis of_int_1 of_int_diff of_int_numeral of_int_power)
    ultimately show ?thesis by simp
  qed
  from m0 m53 lo show ?thesis by blast
qed

lemma round_double_range_pos:
  assumes "0 < a" and "round_double a = Finite r"
  shows "is_double r"
proof -
  define B :: rat where "B = 2 powi 1024"
  define e' where "e' = max (ilog 2 a - 52) (- 1074)"
  define m where "m = rne (a / 2 powi e')"
  from assms(2) have "(if B \<le> of_int m * 2 powi e' then PosInf
        else if m = 0 then Finite 0 else Finite (of_int m * 2 powi e')) = Finite r"
    unfolding round_double_pos [OF assms(1) B_def] Let_def e'_def [symmetric] m_def [symmetric] .
  then have vB: "of_int m * 2 powi e' < B" and r: "r = (if m = 0 then 0 else of_int m * 2 powi e')"
    by (auto split: if_splits)
  from scaled_significand [OF assms(1)]
  have s: "0 \<le> m" "m \<le> 2 ^ 53" "e' \<noteq> - 1074 \<Longrightarrow> 2 ^ 52 \<le> m"
    unfolding m_def e'_def by blast+
  have e0: "- 1074 \<le> e'" by (simp add: e'_def)
  show ?thesis
  proof (cases "m = 0")
    case True
    with r show ?thesis by (simp add: is_double_0)
  next
    case False
    with r have rv: "r = of_int m * 2 powi e'" by simp
    show ?thesis
    proof (cases "m = 2 ^ 53")
      case True
      have "(of_int m :: rat) = 2 powi 53" unfolding True by simp
      then have "of_int m * (2::rat) powi e' = 2 powi 53 * 2 powi e'" by (simp only:)
      also have "\<dots> = 2 powi (53 + e')" by (rule power_int_add [symmetric]) simp
      finally have v: "of_int m * (2::rat) powi e' = 2 powi (53 + e')" .
      from vB have "(2::rat) powi (53 + e') < 2 powi 1024" unfolding B_def v .
      then have "53 + e' < 1024" by (simp only: two_powi_less_iff)
      then have e1: "e' + 1 \<le> 971" by simp
      have "53 + e' = 52 + (e' + 1)" by simp
      then have "(2::rat) powi (53 + e') = 2 powi (52 + (e' + 1))" by (simp only:)
      also have "\<dots> = 2 powi 52 * 2 powi (e' + 1)" by (rule power_int_add) simp
      also have "(2::rat) powi 52 = of_int (2 ^ 52)" by simp
      finally have "r = of_int (2 ^ 52) * 2 powi (e' + 1)" unfolding rv v .
      moreover have "\<bar>2 ^ 52 :: int\<bar> < 2 ^ 53" by simp
      moreover have "- 1074 \<le> e' + 1" using e0 by simp
      ultimately show ?thesis
        unfolding is_double_def using e1 by blast
    next
      case False
      with s have m53: "\<bar>m\<bar> < 2 ^ 53" by simp
      have "e' \<le> 971"
      proof (rule ccontr)
        assume "\<not> e' \<le> 971"
        then have big: "972 \<le> e'" by simp
        then have "e' \<noteq> - 1074" by simp
        from s(3) [OF this] have "(2::rat) ^ 52 \<le> of_int m"
          by (rule two_power_le_of_int)
        then have "(2::rat) powi 52 * 2 powi e' \<le> of_int m * 2 powi e'"
          by (simp add: mult_right_mono)
        moreover have "(2::rat) powi 52 * 2 powi e' = 2 powi (52 + e')"
          by (rule power_int_add [symmetric]) simp
        moreover have "B \<le> 2 powi (52 + e')"
        proof -
          have "1024 \<le> 52 + e'" using big by simp
          then show ?thesis unfolding B_def by (simp only: two_powi_le_iff)
        qed
        ultimately show False using vB by linarith
      qed
      with m53 e0 rv show ?thesis unfolding is_double_def by blast
    qed
  qed
qed

lemma round_double_neg_Finite:
  assumes "0 < a" and "round_double (- a) = Finite r"
  shows "round_double a = Finite (- r)"
proof -
  define B :: rat where "B = 2 powi 1024"
  define e' where "e' = max (ilog 2 a - 52) (- 1074)"
  define m where "m = rne (a / 2 powi e')"
  have neg: "- a < 0" using assms(1) by simp
  have "round_double (- a) = (if B \<le> of_int m * 2 powi e' then NegInf
        else if m = 0 then NegZero else Finite (- (of_int m * 2 powi e')))"
    using round_double_neg [OF neg B_def] by (simp add: Let_def e'_def m_def)
  with assms(2) have "(if B \<le> of_int m * 2 powi e' then NegInf
        else if m = 0 then NegZero else Finite (- (of_int m * 2 powi e'))) = Finite r"
    by simp
  then have "\<not> B \<le> of_int m * 2 powi e'" "m \<noteq> 0" "r = - (of_int m * 2 powi e')"
    by (auto split: if_splits)
  then show ?thesis
    unfolding round_double_pos [OF assms(1) B_def] Let_def e'_def [symmetric] m_def [symmetric]
    by simp
qed

lemma round_double_finite_below:
  assumes "\<bar>q\<bar> < 2 powi 1023"
  shows "round_double q \<noteq> PosInf \<and> round_double q \<noteq> NegInf"
proof (cases "q = 0")
  case True
  then show ?thesis by (simp add: round_double_def)
next
  case False
  define B :: rat where "B = 2 powi 1024"
  define a where "a = \<bar>q\<bar>"
  define e' where "e' = max (ilog 2 a - 52) (- 1074)"
  define m where "m = rne (a / 2 powi e')"
  have apos: "0 < a" using False by (simp add: a_def)
  note b = ilog2_bounds [OF apos]
  from scaled_significand [OF apos]
  have s: "0 \<le> m" "m \<le> 2 ^ 53" unfolding m_def e'_def by blast+
  from b assms have "(2::rat) powi (ilog 2 a) < 2 powi 1023" unfolding a_def by linarith
  then have "ilog 2 a < 1023" by (simp only: two_powi_less_iff)
  then have e: "e' \<le> 970" by (simp add: e'_def)
  have "(of_int m :: rat) \<le> 2 ^ 53" using s(2)
    by (rule of_int_le_two_power)
  then have "of_int m * (2::rat) powi e' \<le> 2 powi 53 * 2 powi e'"
    by (simp add: mult_right_mono)
  also have "\<dots> = 2 powi (53 + e')" by (rule power_int_add [symmetric]) simp
  also have "\<dots> < B"
  proof -
    have "53 + e' < 1024" using e by simp
    then show ?thesis unfolding B_def by (simp only: two_powi_less_iff)
  qed
  finally have vB: "\<not> B \<le> of_int m * 2 powi e'" by simp
  show ?thesis
  proof (cases "0 < q")
    case True
    then have "a = q" by (simp add: a_def)
    with vB show ?thesis
      unfolding round_double_pos [OF True B_def] Let_def
      by (simp add: e'_def m_def)
  next
    case f: False
    with False have neg: "q < 0" by simp
    then have "a = - q" by (simp add: a_def)
    with vB show ?thesis
      unfolding round_double_neg [OF neg B_def] Let_def
      by (simp add: e'_def m_def)
  qed
qed

lemma round_double_range:
  assumes "round_double q = Finite r"
  shows "is_double r"
proof -
  consider "q = 0" | "0 < q" | "q < 0" by linarith
  then show ?thesis
  proof cases
    case 1
    with assms show ?thesis by (simp add: round_double_def is_double_0)
  next
    case 2
    from round_double_range_pos [OF 2 assms] show ?thesis .
  next
    case 3
    then have p: "0 < - q" by simp
    from assms have "round_double (- (- q)) = Finite r" by simp
    from round_double_range_pos [OF p round_double_neg_Finite [OF p this]]
    have "is_double (- r)" .
    from is_double_minus [OF this] show ?thesis by simp
  qed
qed


lemma rne_eqI:
  assumes "of_int k - 1 / 2 < x" and "x < of_int k + 1 / 2"
  shows "rne x = k"
proof -
  have f: "\<lfloor>x\<rfloor> = k \<or> \<lfloor>x\<rfloor> = k - 1"
    using assms by (simp add: floor_eq_iff) linarith
  show ?thesis
  proof (cases "\<lfloor>x\<rfloor> = k")
    case True
    with assms show ?thesis by (simp add: rne_def Let_def)
  next
    case False
    with f have "\<lfloor>x\<rfloor> = k - 1" by simp
    with assms show ?thesis by (simp add: rne_def Let_def)
  qed
qed

lemma round_double_cert_pos:
  assumes "0 < a" and "2 powi k \<le> a" and "a < 2 powi (k + 1)"
    and "e = max (k - 52) (- 1074)"
    and "of_int m - 1 / 2 < a / 2 powi e" and "a / 2 powi e < of_int m + 1 / 2"
    and "0 < m" and "(of_int m :: rat) * 2 powi e < 2 powi 1024"
  shows "round_double a = Finite (of_int m * 2 powi e)"
proof -
  define B :: rat where "B = 2 powi 1024"
  have il: "ilog 2 a = k" using ilog_eqI [of a 2 k] assms(1-3) by simp
  have r: "rne (a / 2 powi e) = m" by (rule rne_eqI [OF assms(5,6)])
  have "\<not> B \<le> of_int m * 2 powi e" using assms(8) unfolding B_def by linarith
  with assms(7) show ?thesis
    unfolding round_double_pos [OF assms(1) B_def] Let_def il assms(4) [symmetric] r
    by simp
qed

lemma is_doubleI:
  "q = of_int m * 2 powi e \<Longrightarrow> \<bar>m\<bar> < 2 ^ 53 \<Longrightarrow> - 1074 \<le> e \<Longrightarrow> e \<le> 971 \<Longrightarrow> is_double q"
  unfolding is_double_def by blast

lemma round_double_of_int:
  assumes "\<bar>n\<bar> < 2 ^ 53"
  shows "round_double (of_int n) = Finite (of_int n)"
  by (rule round_double_idem, rule is_doubleI [of _ n 0]) (use assms in simp_all)

lemma round_double_numeral:
  assumes "(numeral n :: int) < 2 ^ 53"
  shows "round_double (numeral n) = Finite (numeral n)"
  using round_double_of_int [of "numeral n"] assms by simp

lemmas py_float_eval = py_float_def strip_def remove_underscores_def split_sign_def
  parse_decimal_def parse_exponent_def parse_inf_or_nan_def is_digit_def is_space_def
  digits_val_def str_of_def to_lower_def signed_zero_def Let_def

lemma floor_numeral_div: "\<lfloor>(numeral a :: rat) / numeral b\<rfloor> = numeral a div numeral b"
  using floor_divide_of_int_eq [of "numeral a" "numeral b", where ?'a = rat] by simp

lemma shortest_numeral:
  "shortest (numeral k) n a =
     (case repr_candidate a (ilog 10 a) n of
        Some c \<Rightarrow> c
      | None \<Rightarrow> shortest (pred_numeral k) (Suc n) a)"
  by (simp add: numeral_eq_Suc)

lemmas float_repr_eval = float_repr_def repr_digits_def shortest_numeral repr_candidate_def
  round_double_numeral floor_numeral_div format_repr_def str_of_def Let_def



lemma round_double_representable: "representable (round_double q)"
  by (cases "round_double q") (simp_all add: representable_def round_double_range)

lemma fdiv_representable: "fdiv x y = Inr f \<Longrightarrow> representable f"
  using round_double_representable [of "fval x / fval y"]
  by (auto simp: fdiv_def signed_zero_def is_double_0 representable_def [of NaN]
        representable_def [of PosInf] representable_def [of NegInf] representable_def [of NegZero]
        representable_def [of "Finite 0"]
           split: if_splits)

lemma py_truediv_representable:
  assumes "py_truediv a b = Inr f"
  shows "representable f"
proof (cases "\<exists>i j. a = PInt i \<and> b = PInt j")
  case True
  then obtain i j where "a = PInt i" "b = PInt j" by blast
  with assms show ?thesis
    using round_double_representable [of "of_int i / of_int j"]
    by (auto simp: signed_zero_def representable_def is_double_0
             split: if_splits pyfloat.splits)
next
  case False
  with assms have "\<exists>x y. fdiv x y = Inr f"
    by (cases a; cases b) (auto split: sum.splits)
  then show ?thesis by (auto dest: fdiv_representable)
qed

lemma big_double_is_int:
  assumes "is_double q" and "2 powi 53 \<le> \<bar>q\<bar>"
  shows "\<exists>z. q = of_int z"
proof -
  from assms(1) obtain m e where q: "q = of_int m * 2 powi e" and m: "\<bar>m\<bar> < 2 ^ 53"
    unfolding is_double_def by blast
  have "0 < e"
  proof (rule ccontr)
    assume "\<not> 0 < e"
    then have "e \<le> 0" by simp
    then have "(2::rat) powi e \<le> 2 powi 0" by (simp only: two_powi_le_iff)
    then have "(2::rat) powi e \<le> 1" by simp
    moreover have "\<bar>q\<bar> = \<bar>of_int m\<bar> * 2 powi e" by (simp add: q abs_mult)
    ultimately have "\<bar>q\<bar> \<le> \<bar>of_int m\<bar>"
      by (simp add: mult_left_le)
    moreover have "\<bar>of_int m :: rat\<bar> < 2 ^ 53"
      using of_int_less_two_power [OF m] by simp
    ultimately show False using assms(2) by simp
  qed
  then have "(2::rat) powi e = of_int (2 ^ nat e)" by (simp add: power_int_nonneg_exp)
  then have "q = of_int (m * 2 ^ nat e)" by (simp add: q)
  then show ?thesis by blast
qed

lemma py_round_6_returns:
  assumes "representable x"
  shows "\<exists>r. py_round x 6 = Inr r"
proof (cases "\<exists>q. x = Finite q \<and> q \<noteq> 0")
  case False
  then show ?thesis by (cases x) (auto simp: py_round_def)
next
  case True
  then obtain q where x: "x = Finite q" and q0: "q \<noteq> 0" by blast
  from assms x have d: "is_double q" by (simp add: representable_def)
  define r0 where "r0 = of_int (rne (q * 1000000)) / (1000000 :: rat)"
  have fin: "round_double r0 \<noteq> PosInf \<and> round_double r0 \<noteq> NegInf"
  proof (cases "2 powi 53 \<le> \<bar>q\<bar>")
    case True
    from big_double_is_int [OF d True] obtain z where z: "q = of_int z" by blast
    have "q * 1000000 = of_int (z * 1000000)" by (simp add: z)
    then have "rne (q * 1000000) = z * 1000000" by (simp only: rne_of_int)
    then have "r0 = q" by (simp add: r0_def z)
    with round_double_idem [OF d] show ?thesis by simp
  next
    case False
    then have a: "\<bar>q\<bar> < 2 powi 53" by simp
    have "\<bar>of_int (rne (q * 1000000)) - q * 1000000\<bar> \<le> 1 / 2"
      using rne_bounds [of "q * 1000000"] by linarith
    then have "\<bar>r0 - q\<bar> \<le> 1 / 2000000"
      unfolding r0_def by (simp add: abs_le_iff field_simps)
    then have "\<bar>r0\<bar> \<le> \<bar>q\<bar> + 1" by linarith
    with a have "\<bar>r0\<bar> < 2 powi 53 + 1" by linarith
    also have "\<dots> \<le> 2 powi 54" by simp
    also have "\<dots> < 2 powi 1023" by (simp only: two_powi_less_iff)
    finally show ?thesis by (rule round_double_finite_below)
  qed
  show ?thesis
    unfolding py_round_def x using q0 fin
    by (cases "round_double r0") (simp_all add: r0_def Let_def)
qed




lemma py_float_error: "py_float s = Inl e \<Longrightarrow> e = ValueError"
  by (auto simp: py_float_def split: option.splits prod.splits if_splits)

lemma py_int_error: "py_int s = Inl e \<Longrightarrow> e = ValueError"
  by (auto simp: py_int_def split: option.splits prod.splits if_splits)

text \<open>
  Some values of the examples.
\<close>

lemma double_0_9: "round_double (9 / 10) = Finite (8106479329266893 / 2 ^ 53)"
  using round_double_cert_pos [of "9 / 10" "- 1" "- 53" 8106479329266893] by simp



lemma double_quarter: "round_double (1 / 4) = Finite (1 / 4)"
  by (rule round_double_idem, rule is_doubleI [of _ 1 "- 2"]) simp_all

lemma ilog10_2: "ilog 10 2 = 0"
  by (rule ilog_eqI) simp_all

section \<open>Properties of the text channel\<close>

lemma odf_write_Some:
  "odf_write (Some p) bs w =
     (Inr (), w\<lparr>files := (files w)(p \<mapsto> (case files w p of None \<Rightarrow> bs | Some old \<Rightarrow> old @ bs))\<rparr>)"
  by (simp add: odf_write_def)






lemmas run_eval = process_file_def os_path_join_def os_path_dirname_def TextProcessor_init_def
  double_0_9 process_encoding_def encode_ascii_def readlines_def TextProcessor_enter_def
  process_line_def macro_re_match_def match_name_def match_end_def is_name_char_def
  TextProcessor_write_def odf_write_Some str_of_def process_def exit_status_def Let_def



text \<open>
  Claim C1. The reading loop cuts the last character off every line, terminator or not:
  on the two-line ASCII file \<open>a\nbc\<close>, whose final line has no terminator, the program
  writes \<open>a\nb\<close>. The final line is not written as it was read.
\<close>

theorem final_line_without_terminator_loses_its_last_character:
  "process_file \<lparr>template_dir = ''t'', live_dir = ''l'', changes = Map.empty\<rparr> ''f''
     \<lparr>sources = [''t/f'' \<mapsto> \<lparr>chardet_confidence = Finite 1, chardet_encoding = Some ''ascii'',
                               newlines_seen = NewlinesStr [10],
                               content = [97, 10, 98, 99]\<rparr>],
      files = Map.empty, dirs = {}, stdout = []\<rparr>
   = (Inr (),
      \<lparr>sources = [''t/f'' \<mapsto> \<lparr>chardet_confidence = Finite 1, chardet_encoding = Some ''ascii'',
                                newlines_seen = NewlinesStr [10],
                                content = [97, 10, 98, 99]\<rparr>],
       files = [''l/f'' \<mapsto> [97, 10, 98]], dirs = {''l''}, stdout = [Processing ''f'']\<rparr>)"
  by (simp add: run_eval)

lemma TextProcessor_init_refuses:
  assumes "float_lt (chardet_confidence src) (round_double (9 / 10)) \<or>
           (chardet_encoding src \<noteq> Some ''UTF-8-SIG'' \<and> chardet_encoding src \<noteq> Some ''ascii'')"
  shows "TextProcessor_init src fo fn =
           Inl (RuntimeError
                 (if float_lt (chardet_confidence src) (round_double (9 / 10))
                  then ''Character detection not confident enough'' else ''Unknown encoding''))"
  using assms by (auto simp: TextProcessor_init_def process_encoding_def)

text \<open>
  Claim C9. When the detection confidence is below 0.9, or the detected encoding is
  neither \<open>UTF-8-SIG\<close> nor \<open>ascii\<close>, \<open>process_file\<close> raises the constructor's
  \<open>RuntimeError\<close> and the files of the world are what they were: the destination file
  has not been created or touched.
\<close>

theorem refused_source_creates_no_file:
  assumes "sources w (os_path_join (template_dir a) filename) = Some src"
    and "float_lt (chardet_confidence src) (round_double (9 / 10)) \<or>
         (chardet_encoding src \<noteq> Some ''UTF-8-SIG'' \<and> chardet_encoding src \<noteq> Some ''ascii'')"
  shows "fst (process_file a filename w) =
           Inl (RuntimeError
                 (if float_lt (chardet_confidence src) (round_double (9 / 10))
                  then ''Character detection not confident enough'' else ''Unknown encoding'')) \<and>
         files (snd (process_file a filename w)) = files w"
  using assms(1) TextProcessor_init_refuses [OF assms(2)]
  by (simp add: process_file_def Let_def)

text \<open>
  An instance: a source detected as UTF-16.
\<close>

theorem refused_source_creates_no_file_witness:
  "fst (process_file \<lparr>template_dir = ''t'', live_dir = ''l'', changes = Map.empty\<rparr> ''f''
          \<lparr>sources = [''t/f'' \<mapsto> \<lparr>chardet_confidence = Finite 1,
                                    chardet_encoding = Some ''UTF-16'',
                                    newlines_seen = NewlinesStr [10], content = [97, 10]\<rparr>],
           files = Map.empty, dirs = {}, stdout = []\<rparr>)
     = Inl (RuntimeError ''Unknown encoding'') \<and>
   files (snd (process_file \<lparr>template_dir = ''t'', live_dir = ''l'', changes = Map.empty\<rparr> ''f''
          \<lparr>sources = [''t/f'' \<mapsto> \<lparr>chardet_confidence = Finite 1,
                                    chardet_encoding = Some ''UTF-16'',
                                    newlines_seen = NewlinesStr [10], content = [97, 10]\<rparr>],
           files = Map.empty, dirs = {}, stdout = []\<rparr>)) ''l/f'' = None"
  using refused_source_creates_no_file
    [of "\<lparr>sources = [''t/f'' \<mapsto> \<lparr>chardet_confidence = Finite 1,
                                    chardet_encoding = Some ''UTF-16'',
                                    newlines_seen = NewlinesStr [10], content = [97, 10]\<rparr>],
           files = Map.empty, dirs = {}, stdout = []\<rparr>"
        "\<lparr>template_dir = ''t'', live_dir = ''l'', changes = Map.empty\<rparr>" "''f''"
        "\<lparr>chardet_confidence = Finite 1, chardet_encoding = Some ''UTF-16'',
          newlines_seen = NewlinesStr [10], content = [97, 10]\<rparr>"]
  by (simp add: os_path_join_def double_0_9)

section \<open>Properties of the macro pattern\<close>

text \<open>
  On a line without \<open>\n\<close> (every line the channel delivers), the matcher finds the
  last place where a span \<open>@name|...@\<close> starts.
\<close>

lemma match_end_plain: "10 \<notin> set cs \<Longrightarrow> match_end cs = Some cs"
  by (simp add: match_end_def)

lemma match_default_plain:
  "10 \<notin> set cs \<Longrightarrow>
   match_default acc cs =
     (if 64 \<in> set cs
      then Some (rev acc @ takeWhile (\<lambda>c. c \<noteq> 64) cs, tl (dropWhile (\<lambda>c. c \<noteq> 64) cs))
      else None)"
  by (induction cs arbitrary: acc) (auto simp: match_end_plain)

lemma not_name_char_bar: "\<not> is_name_char 124"
  by (simp add: is_name_char_def)

lemma takeWhile_name:
  "list_all is_name_char n \<Longrightarrow> takeWhile is_name_char (n @ 124 # r) = n"
  by (induction n) (auto simp: not_name_char_bar)

lemma dropWhile_name:
  "list_all is_name_char n \<Longrightarrow> dropWhile is_name_char (n @ 124 # r) = 124 # r"
  by (induction n) (auto simp: not_name_char_bar)

lemma match_name_span:
  assumes "list_all is_name_char n" and "n \<noteq> []" and "10 \<notin> set r"
  shows "match_name (n @ 124 # r) =
           (if 64 \<in> set r
            then Some (n, takeWhile (\<lambda>c. c \<noteq> 64) r, tl (dropWhile (\<lambda>c. c \<noteq> 64) r))
            else None)"
  using assms
  by (simp add: match_name_def takeWhile_name dropWhile_name match_default_plain)

lemma split_at_first:
  "x \<in> set r \<Longrightarrow> r = takeWhile (\<lambda>c. c \<noteq> x) r @ x # tl (dropWhile (\<lambda>c. c \<noteq> x) r)"
  by (induction r) auto

lemma match_name_sound:
  assumes "match_name cs = Some (n, d, e)" and "10 \<notin> set cs"
  shows "cs = n @ [124] @ d @ [64] @ e \<and> n \<noteq> [] \<and> list_all is_name_char n \<and> 64 \<notin> set d"
proof -
  let ?n = "takeWhile is_name_char cs"
  from assms(1) have n: "n = ?n" "?n \<noteq> []"
    by (auto simp: match_name_def Let_def split: if_splits list.splits option.splits)
  from assms(1) obtain r where r: "dropWhile is_name_char cs = 124 # r"
     and md: "match_default [] r = Some (d, e)"
    by (auto simp: match_name_def Let_def split: if_splits list.splits option.splits)
  have cs: "cs = ?n @ 124 # r"
    using takeWhile_dropWhile_id [of is_name_char cs] r by simp
  then have "set r \<subseteq> set cs"
    by (metis set_append set_subset_Cons le_supI2 list.set_intros(2) subsetI Un_iff)
  with assms(2) have nr: "10 \<notin> set r" by auto
  from md have in64: "64 \<in> set r" and d: "d = takeWhile (\<lambda>c. c \<noteq> 64) r"
     and e: "e = tl (dropWhile (\<lambda>c. c \<noteq> 64) r)"
    by (auto simp: match_default_plain [OF nr] split: if_splits)
  have "64 \<notin> set d"
    unfolding d by (auto dest: set_takeWhileD)
  moreover have "cs = n @ [124] @ d @ [64] @ e"
  proof -
    have r': "r = d @ 64 # e"
      unfolding d e by (rule split_at_first [OF in64])
    have "cs = n @ 124 # r"
      unfolding n(1) by (rule cs)
    with r' show ?thesis by simp
  qed
  moreover have "n \<noteq> []"
    unfolding n(1) by (rule n(2))
  moreover have "list_all is_name_char n"
    unfolding n(1) by (simp add: list_all_iff) (meson set_takeWhileD)
  ultimately show ?thesis by blast
qed

lemma match_start_sound:
  "match_start acc cs = Some m \<Longrightarrow>
   \<exists>p r. cs = p @ 64 # r \<and> m_start m = rev acc @ p \<and>
         match_name r = Some (m_name m, m_default m, m_end m)"
proof (induction cs arbitrary: acc)
  case Nil
  then show ?case by simp
next
  case (Cons c cs)
  show ?case
  proof (cases "c \<noteq> 10 \<and> match_start (c # acc) cs \<noteq> None")
    case True
    with Cons.prems have "match_start (c # acc) cs = Some m"
      by (auto split: option.splits)
    from Cons.IH [OF this] obtain p r where
      "cs = p @ 64 # r" "m_start m = rev (c # acc) @ p"
      "match_name r = Some (m_name m, m_default m, m_end m)" by blast
    then show ?thesis
      by (intro exI [of _ "c # p"] exI [of _ r]) simp
  next
    case False
    with Cons.prems have "c = 64" and
      "\<exists>n d e. match_name cs = Some (n, d, e) \<and>
         m = \<lparr>m_start = rev acc, m_name = n, m_default = d, m_end = e\<rparr>"
      by (auto split: option.splits if_splits)
    then show ?thesis
      by (intro exI [of _ "[]"] exI [of _ cs]) auto
  qed
qed

lemma match_start_last:
  "10 \<notin> set cs \<Longrightarrow> cs = p @ 64 # r \<Longrightarrow> match_name r \<noteq> None \<Longrightarrow>
   \<exists>m. match_start acc cs = Some m \<and> length acc + length p \<le> length (m_start m)"
proof (induction cs arbitrary: acc p)
  case Nil
  then show ?case by simp
next
  case (Cons c cs)
  show ?case
  proof (cases p)
    case Nil
    with Cons.prems have c: "c = 64" and r: "cs = r" by simp_all
    show ?thesis
    proof (cases "match_start (c # acc) cs")
      case None
      with Cons.prems(3) c r Nil show ?thesis by (auto split: option.splits)
    next
      case (Some m)
      from match_start_sound [OF Some] obtain p' where "m_start m = rev (c # acc) @ p'"
        by blast
      with Some Cons.prems(1) Nil show ?thesis by (auto split: option.splits)
    qed
  next
    case (Cons c' p')
    with Cons.prems have "cs = p' @ 64 # r" "10 \<notin> set cs" "c \<noteq> 10" by auto
    from Cons.IH [OF this(2) this(1) Cons.prems(3), of "c # acc"] obtain m where
      "match_start (c # acc) cs = Some m" "length (c # acc) + length p' \<le> length (m_start m)"
      by blast
    with \<open>c \<noteq> 10\<close> Cons show ?thesis by simp
  qed
qed

lemma macro_match_last_span:
  assumes "10 \<notin> set line"
    and "line = s @ [64] @ n @ [124] @ d @ [64] @ e"
    and "n \<noteq> []" and "list_all is_name_char n"
  shows "\<exists>m. macro_re_match line = Some m \<and>
           line = m_start m @ [64] @ m_name m @ [124] @ m_default m @ [64] @ m_end m \<and>
           m_name m \<noteq> [] \<and> list_all is_name_char (m_name m) \<and> 64 \<notin> set (m_default m) \<and>
           length s \<le> length (m_start m)"
proof -
  let ?r = "n @ 124 # d @ 64 # e"
  from assms(1,2) have nr: "10 \<notin> set (d @ 64 # e)" by auto
  have "match_name ?r \<noteq> None"
    using match_name_span [OF assms(4,3) nr] by simp
  moreover have "line = s @ 64 # ?r" using assms(2) by simp
  ultimately obtain m where m: "match_start [] line = Some m" "length s \<le> length (m_start m)"
    using match_start_last [OF assms(1), of s ?r "[]"] by auto
  from match_start_sound [OF m(1)] obtain p r where
    pr: "line = p @ 64 # r" "m_start m = p" "match_name r = Some (m_name m, m_default m, m_end m)"
    by auto
  from pr(1) assms(1) have "10 \<notin> set r" by auto
  from match_name_sound [OF pr(3) this] pr(1,2) m show ?thesis
    by (intro exI [of _ m]) (simp add: macro_re_match_def)
qed

lemma empty_default_matches:
  assumes "n \<noteq> []" and "list_all is_name_char n"
  shows "macro_re_match ([64] @ n @ [124, 64]) =
           Some \<lparr>m_start = [], m_name = n, m_default = [], m_end = []\<rparr>"
proof -
  have n64: "64 \<notin> set n"
    using assms(2) by (auto simp: list_all_iff is_name_char_def)
  have "match_start [64] (n @ [124, 64]) = None"
  proof (rule ccontr)
    assume "match_start [64] (n @ [124, 64]) \<noteq> None"
    then obtain m where "match_start [64] (n @ [124, 64]) = Some m" by blast
    from match_start_sound [OF this] obtain p r where
      pr: "n @ [124, 64] = p @ 64 # r" and mn: "match_name r = Some (m_name m, m_default m, m_end m)"
      by blast
    from pr n64 have "r = []"
      by (cases r rule: rev_cases) (auto simp: append_eq_append_conv2 append_eq_Cons_conv Cons_eq_append_conv)
    with mn show False by (simp add: match_name_def)
  qed
  then show ?thesis
    using match_name_span [OF assms(2,1), of "[64]"]
    by (simp add: macro_re_match_def)
qed

text \<open>
  Claim C3. If a span \<open>@name|default@\<close> starts anywhere in a line (at offset
  \<open>length s\<close>), the pattern matches, what it matches is a span whose default holds no
  \<open>@\<close>, and that span starts at least as far to the right: the match is the last span of
  the line, every earlier one is part of the leading text. The driver replaces that one
  span and copies the leading and trailing text.
\<close>

theorem macro_match_is_last_span:
  assumes "10 \<notin> set line"
    and "line = s @ [64] @ n @ [124] @ d @ [64] @ e"
    and "n \<noteq> []" and "list_all is_name_char n"
  shows "\<exists>m. macro_re_match line = Some m \<and>
           line = m_start m @ [64] @ m_name m @ [124] @ m_default m @ [64] @ m_end m \<and>
           m_name m \<noteq> [] \<and> list_all is_name_char (m_name m) \<and> 64 \<notin> set (m_default m) \<and>
           length s \<le> length (m_start m) \<and>
           (\<forall>a tp w act v. changes a (m_name m) = Some act \<and>
                process act (m_name m) (m_default m) = Inr v \<longrightarrow>
              process_line a tp line w =
                TextProcessor_write tp (m_start m @ py_str v @ m_end m) w)"
proof -
  from macro_match_last_span [OF assms] obtain m where
    m: "macro_re_match line = Some m"
       "line = m_start m @ [64] @ m_name m @ [124] @ m_default m @ [64] @ m_end m"
       "m_name m \<noteq> []" "list_all is_name_char (m_name m)" "64 \<notin> set (m_default m)"
       "length s \<le> length (m_start m)"
    by blast
  have "process_line a tp line w = TextProcessor_write tp (m_start m @ py_str v @ m_end m) w"
    if "changes a (m_name m) = Some act" "process act (m_name m) (m_default m) = Inr v"
    for a tp w act v
    using that m(1) by (simp add: process_line_def)
  with m show ?thesis by blast
qed

text \<open>
  An instance: two spans on a line, both names in the catalog; only the second span is
  replaced.
\<close>

theorem macro_match_is_last_span_witness:
  "macro_re_match (str_of ''a@x|1@b@y|2@c'') =
     Some \<lparr>m_start = str_of ''a@x|1@b'', m_name = str_of ''y'', m_default = str_of ''2'',
           m_end = str_of ''c''\<rparr> \<and>
   (\<exists>m. macro_re_match (str_of ''a@x|1@b@y|2@c'') = Some m \<and>
        length (str_of ''a'') \<le> length (m_start m) \<and> 64 \<notin> set (m_default m)) \<and>
   process_line
     \<lparr>template_dir = ''t'', live_dir = ''l'',
      changes = [str_of ''x'' \<mapsto> ActionHardcode False (PNum (PInt 8)),
                 str_of ''y'' \<mapsto> ActionHardcode False (PNum (PInt 9))]\<rparr>
     \<lparr>filename_orig = ''t/f'', filename_new = ''l/f'', written_line = False,
      orig_encoding = Some ''ascii'', encoding = Ascii, bom = None, newline = [10],
      data = [], odf = Some ''l/f''\<rparr>
     (str_of ''a@x|1@b@y|2@c'')
     \<lparr>sources = Map.empty, files = [''l/f'' \<mapsto> []], dirs = {}, stdout = []\<rparr>
   = (Inr \<lparr>filename_orig = ''t/f'', filename_new = ''l/f'', written_line = True,
           orig_encoding = Some ''ascii'', encoding = Ascii, bom = None, newline = [10],
           data = [], odf = Some ''l/f''\<rparr>,
      \<lparr>sources = Map.empty, files = [''l/f'' \<mapsto> map of_nat (str_of ''a@x|1@b9c'')], dirs = {},
       stdout = []\<rparr>)"
proof -
  let ?a = "\<lparr>template_dir = ''t'', live_dir = ''l'',
      changes = [str_of ''x'' \<mapsto> ActionHardcode False (PNum (PInt 8)),
                 str_of ''y'' \<mapsto> ActionHardcode False (PNum (PInt 9))]\<rparr>"
  let ?m = "\<lparr>m_start = str_of ''a@x|1@b'', m_name = str_of ''y'', m_default = str_of ''2'',
           m_end = str_of ''c''\<rparr>"
  have l: "str_of ''a@x|1@b@y|2@c'' =
          str_of ''a'' @ [64] @ str_of ''x'' @ [124] @ str_of ''1'' @ [64] @ str_of ''b@y|2@c''"
    by (simp add: str_of_def)
  have h: "10 \<notin> set (str_of ''a@x|1@b@y|2@c'')" "str_of ''x'' \<noteq> []"
       "list_all is_name_char (str_of ''x'')"
    by (simp_all add: str_of_def is_name_char_def)
  have e: "macro_re_match (str_of ''a@x|1@b@y|2@c'') = Some ?m"
    by (simp add: run_eval)
  have c: "changes ?a (m_name ?m) = Some (ActionHardcode False (PNum (PInt 9)))"
    by (simp add: str_of_def)
  have p: "process (ActionHardcode False (PNum (PInt 9))) (m_name ?m) (m_default ?m)
             = Inr (PNum (PInt 9))"
    by (simp add: process_def)
  from macro_match_is_last_span [OF h(1) l h(2,3)] obtain m where
    m: "macro_re_match (str_of ''a@x|1@b@y|2@c'') = Some m"
       "length (str_of ''a'') \<le> length (m_start m)" "64 \<notin> set (m_default m)"
       "\<And>a tp w act v. changes a (m_name m) = Some act \<Longrightarrow>
            process act (m_name m) (m_default m) = Inr v \<Longrightarrow>
            process_line a tp (str_of ''a@x|1@b@y|2@c'') w =
              TextProcessor_write tp (m_start m @ py_str v @ m_end m) w"
    by blast
  from m(1) e have "m = ?m" by simp
  from m(4) [unfolded this, OF c p]
  have w: "process_line ?a tp (str_of ''a@x|1@b@y|2@c'') w =
       TextProcessor_write tp (m_start ?m @ py_str (PNum (PInt 9)) @ m_end ?m) w" for tp w .
  from m(1-3) have "\<exists>m. macro_re_match (str_of ''a@x|1@b@y|2@c'') = Some m \<and>
        length (str_of ''a'') \<le> length (m_start m) \<and> 64 \<notin> set (m_default m)"
    by blast
  with e show ?thesis
    unfolding w by (simp add: run_eval str_int_def)
qed

section \<open>Properties of the driver\<close>

lemma process_lines_append:
  "process_lines a tp (pre @ ls) w =
     (case process_lines a tp pre w of
        (Inl e, w1) \<Rightarrow> (Inl e, w1)
      | (Inr tp1, w1) \<Rightarrow> process_lines a tp1 ls w1)"
  by (induction pre arbitrary: tp w) (auto split: prod.splits sum.splits)

lemma process_line_raises:
  assumes "macro_re_match line = Some m" and "changes a (m_name m) = Some act"
    and "process act (m_name m) (m_default m) = Inl e"
  shows "process_line a tp line w = (Inl e, w)"
  using assms by (simp add: process_line_def)

text \<open>
  Claim C5. For a macro whose name is not in the catalog the driver prints the warning
  and writes the leading text, the default text and the trailing text, exactly as it would
  write a plain line; when the channel is open and that text can be encoded, the line
  succeeds and the loop goes on with the next line.
\<close>

theorem missing_key_falls_back_to_default:
  assumes "macro_re_match line = Some m" and "changes a (m_name m) = None"
  shows "process_line a tp line w =
           TextProcessor_write tp (m_start m @ m_default m @ m_end m)
             (w\<lparr>stdout := stdout w @ [WarningKeyNotFound (m_name m)]\<rparr>) \<and>
         (\<forall>p old b. odf tp = Some p \<and> files w p = Some old \<and>
             encode (encoding tp) (m_start m @ m_default m @ m_end m) = Inr b \<longrightarrow>
           (\<exists>w'. process_line a tp line w = (Inr (tp\<lparr>written_line := True\<rparr>), w') \<and>
                 stdout w' = stdout w @ [WarningKeyNotFound (m_name m)] \<and>
                 files w' p = Some (old @ (if written_line tp then newline tp else []) @ b) \<and>
                 (\<forall>rest. process_lines a tp (line # rest) w =
                           process_lines a (tp\<lparr>written_line := True\<rparr>) rest w')))"
proof -
  have eq: "process_line a tp line w =
           TextProcessor_write tp (m_start m @ m_default m @ m_end m)
             (w\<lparr>stdout := stdout w @ [WarningKeyNotFound (m_name m)]\<rparr>)"
    using assms by (simp add: process_line_def process_def)
  moreover have "\<exists>w'. process_line a tp line w = (Inr (tp\<lparr>written_line := True\<rparr>), w') \<and>
                 stdout w' = stdout w @ [WarningKeyNotFound (m_name m)] \<and>
                 files w' p = Some (old @ (if written_line tp then newline tp else []) @ b) \<and>
                 (\<forall>rest. process_lines a tp (line # rest) w =
                           process_lines a (tp\<lparr>written_line := True\<rparr>) rest w')"
    if "odf tp = Some p" "files w p = Some old"
       "encode (encoding tp) (m_start m @ m_default m @ m_end m) = Inr b" for p old b
    unfolding process_lines.simps eq using that
    by (simp add: TextProcessor_write_def odf_write_Some)
  ultimately show ?thesis by blast
qed

text \<open>
  An instance, and a whole run over it: exit status 0, the warning printed, \<open>x=7\<close>
  written.
\<close>

theorem missing_key_falls_back_to_default_witness:
  "macro_re_match (str_of ''x=@unknown_macro|7@'') =
     Some \<lparr>m_start = str_of ''x='', m_name = str_of ''unknown_macro'',
           m_default = str_of ''7'', m_end = []\<rparr> \<and>
   process_line \<lparr>template_dir = ''t'', live_dir = ''l'', changes = Map.empty\<rparr>
     \<lparr>filename_orig = ''t/f'', filename_new = ''l/f'', written_line = False,
      orig_encoding = Some ''ascii'', encoding = Ascii, bom = None, newline = [10],
      data = [], odf = Some ''l/f''\<rparr>
     (str_of ''x=@unknown_macro|7@'')
     \<lparr>sources = Map.empty, files = [''l/f'' \<mapsto> []], dirs = {}, stdout = []\<rparr>
   = (Inr \<lparr>filename_orig = ''t/f'', filename_new = ''l/f'', written_line = True,
           orig_encoding = Some ''ascii'', encoding = Ascii, bom = None, newline = [10],
           data = [], odf = Some ''l/f''\<rparr>,
      \<lparr>sources = Map.empty, files = [''l/f'' \<mapsto> map of_nat (str_of ''x=7'')], dirs = {},
       stdout = [WarningKeyNotFound (str_of ''unknown_macro'')]\<rparr>) \<and>
   (let r = process_files \<lparr>template_dir = ''t'', live_dir = ''l'', changes = Map.empty\<rparr>
              [(''t'', [''f''])]
              \<lparr>sources = [''t/f'' \<mapsto> \<lparr>chardet_confidence = Finite 1,
                                        chardet_encoding = Some ''ascii'',
                                        newlines_seen = NewlinesStr [10],
                                        content = str_of ''x=@unknown_macro|7@'' @ [10]\<rparr>],
               files = Map.empty, dirs = {}, stdout = []\<rparr>
    in exit_status r = 0 \<and> files (snd r) ''l/f'' = Some (map of_nat (str_of ''x=7'')) \<and>
       stdout (snd r) = [Processing ''f'', WarningKeyNotFound (str_of ''unknown_macro'')])"
proof -
  let ?a = "\<lparr>template_dir = ''t'', live_dir = ''l'', changes = Map.empty\<rparr>"
  let ?tp = "\<lparr>filename_orig = ''t/f'', filename_new = ''l/f'', written_line = False,
      orig_encoding = Some ''ascii'', encoding = Ascii, bom = None, newline = [10],
      data = [], odf = Some ''l/f''\<rparr>"
  let ?w = "\<lparr>sources = Map.empty, files = [''l/f'' \<mapsto> []], dirs = {}, stdout = []\<rparr>"
  let ?m = "\<lparr>m_start = str_of ''x='', m_name = str_of ''unknown_macro'',
           m_default = str_of ''7'', m_end = []\<rparr>"
  have m: "macro_re_match (str_of ''x=@unknown_macro|7@'') = Some ?m"
    by (simp add: run_eval)
  have c: "changes ?a (m_name ?m) = None"
    by simp
  have h: "odf ?tp = Some ''l/f'' \<and> files ?w ''l/f'' = Some [] \<and>
           encode (encoding ?tp) (m_start ?m @ m_default ?m @ m_end ?m)
             = Inr (map of_nat (str_of ''x=7''))"
    by (simp add: encode_ascii_def str_of_def)
  from missing_key_falls_back_to_default [OF m c, of ?tp ?w] h
  obtain w' where w': "process_line ?a ?tp (str_of ''x=@unknown_macro|7@'') ?w
                         = (Inr (?tp\<lparr>written_line := True\<rparr>), w')"
      "stdout w' = stdout ?w @ [WarningKeyNotFound (m_name ?m)]"
      "files w' ''l/f'' = Some ([] @ (if written_line ?tp then newline ?tp else [])
                                  @ map of_nat (str_of ''x=7''))"
    by blast
  have "process_line ?a ?tp (str_of ''x=@unknown_macro|7@'') ?w =
          (Inr (?tp\<lparr>written_line := True\<rparr>),
           \<lparr>sources = Map.empty, files = [''l/f'' \<mapsto> map of_nat (str_of ''x=7'')], dirs = {},
            stdout = [WarningKeyNotFound (str_of ''unknown_macro'')]\<rparr>)"
    using w' by (simp add: run_eval encode_ascii_def)
  with m show ?thesis
    by (simp add: run_eval)
qed

text \<open>
  Claim C10. When the default text of a matched macro does not convert (\<open>float\<close> for
  the scaling actions and \<open>fishing_chance\<close>, \<open>int\<close> for \<open>fishing_room_space\<close>), the
  enabled action raises \<open>ValueError\<close>, the driver does not catch it, nothing is written
  for the line and the rest of the file is not processed.
\<close>

theorem unparsable_default_aborts:
  assumes "macro_re_match line = Some m" and "changes a (m_name m) = Some act"
    and "(((\<exists>scale. act = ActionScaleInt False scale) \<or>
           (\<exists>scale precision. act = ActionScaleFloat False scale precision) \<or>
           ((\<exists>min_chance min_rooms. act = ActionFishingChance False min_chance min_rooms) \<and>
            m_name m = str_of ''fishing_chance'')) \<and>
          py_float (m_default m) = Inl e) \<or>
         ((\<exists>min_chance min_rooms. act = ActionFishingChance False min_chance min_rooms) \<and>
          m_name m = str_of ''fishing_room_space'' \<and> py_int (m_default m) = Inl e)"
  shows "e = ValueError \<and>
         process act (m_name m) (m_default m) = Inl ValueError \<and>
         process_line a tp line w = (Inl ValueError, w) \<and>
         (\<forall>pre rest tp0 w0. process_lines a tp0 pre w0 = (Inr tp, w) \<longrightarrow>
            process_lines a tp0 (pre @ line # rest) w0 = (Inl ValueError, w))"
proof -
  from assms(3) have e: "e = ValueError"
    by (auto dest: py_float_error py_int_error)
  from assms(3) have p: "process act (m_name m) (m_default m) = Inl e"
    by (auto simp: process_def str_of_def)
  note l = process_line_raises [OF assms(1,2) p]
  have "process_lines a tp0 (pre @ line # rest) w0 = (Inl e, w)"
    if "process_lines a tp0 pre w0 = (Inr tp, w)" for pre rest tp0 w0
    using that l by (simp add: process_lines_append)
  with e p l show ?thesis by blast
qed

text \<open>
  An instance with the empty default of \<open>@damage_scale|@\<close>: the run ends with status 1
  in the middle of the first file and never reaches the second.
\<close>

theorem unparsable_default_aborts_witness:
  "py_float [] = Inl ValueError \<and> py_int [] = Inl ValueError \<and>
   macro_re_match (str_of ''x=@damage_scale|@'') =
     Some \<lparr>m_start = str_of ''x='', m_name = str_of ''damage_scale'', m_default = [],
           m_end = []\<rparr> \<and>
   process (ActionScaleInt False (PFloat (Finite (3 / 2)))) (str_of ''damage_scale'') []
     = Inl ValueError \<and>
   process_lines
     \<lparr>template_dir = ''t'', live_dir = ''l'',
      changes = [str_of ''damage_scale'' \<mapsto> ActionScaleInt False (PFloat (Finite (3 / 2)))]\<rparr>
     \<lparr>filename_orig = ''t/a'', filename_new = ''l/a'', written_line = False,
      orig_encoding = Some ''ascii'', encoding = Ascii, bom = None, newline = [10],
      data = [], odf = Some ''l/a''\<rparr>
     [str_of ''first'', str_of ''x=@damage_scale|@'', str_of ''never'']
     \<lparr>sources = Map.empty, files = [''l/a'' \<mapsto> []], dirs = {}, stdout = []\<rparr>
   = (Inl ValueError,
      \<lparr>sources = Map.empty, files = [''l/a'' \<mapsto> map of_nat (str_of ''first'')], dirs = {},
       stdout = []\<rparr>) \<and>
   (let r = process_files
              \<lparr>template_dir = ''t'', live_dir = ''l'',
               changes = [str_of ''damage_scale'' \<mapsto> ActionScaleInt False (PFloat (Finite (3 / 2)))]\<rparr>
              [(''t'', [''a'', ''b''])]
              \<lparr>sources =
                 [''t/a'' \<mapsto> \<lparr>chardet_confidence = Finite 1, chardet_encoding = Some ''ascii'',
                                newlines_seen = NewlinesStr [10],
                                content = str_of ''first'' @ [10] @ str_of ''x=@damage_scale|@'' @ [10]
                                          @ str_of ''never'' @ [10]\<rparr>,
                  ''t/b'' \<mapsto> \<lparr>chardet_confidence = Finite 1, chardet_encoding = Some ''ascii'',
                                newlines_seen = NewlinesStr [10],
                                content = str_of ''other'' @ [10]\<rparr>],
               files = Map.empty, dirs = {}, stdout = []\<rparr>
    in fst r = Inl ValueError \<and> exit_status r = 1 \<and>
       files (snd r) ''l/a'' = Some (map of_nat (str_of ''first'')) \<and>
       files (snd r) ''l/b'' = None \<and> stdout (snd r) = [Processing ''a''])"
proof -
  let ?act = "ActionScaleInt False (PFloat (Finite (3 / 2)))"
  let ?a = "\<lparr>template_dir = ''t'', live_dir = ''l'',
               changes = [str_of ''damage_scale'' \<mapsto> ?act]\<rparr>"
  let ?m = "\<lparr>m_start = str_of ''x='', m_name = str_of ''damage_scale'', m_default = [],
           m_end = []\<rparr>"
  let ?t = "\<lparr>filename_orig = ''t/a'', filename_new = ''l/a'', written_line = False,
      orig_encoding = Some ''ascii'', encoding = Ascii, bom = None, newline = [10],
      data = [], odf = Some ''l/a''\<rparr>"
  let ?v = "\<lparr>sources = Map.empty, files = [''l/a'' \<mapsto> []], dirs = {}, stdout = []\<rparr>"
  let ?w = "\<lparr>sources = Map.empty, files = [''l/a'' \<mapsto> map of_nat (str_of ''first'')], dirs = {},
       stdout = []\<rparr>"
  have m: "macro_re_match (str_of ''x=@damage_scale|@'') = Some ?m"
    by (simp add: run_eval)
  have c: "changes ?a (m_name ?m) = Some ?act"
    by simp
  have f: "py_float [] = Inl ValueError" "py_int [] = Inl ValueError"
    by (simp_all add: py_int_def py_float_eval)
  have h: "(((\<exists>scale. ?act = ActionScaleInt False scale) \<or>
           (\<exists>scale precision. ?act = ActionScaleFloat False scale precision) \<or>
           ((\<exists>min_chance min_rooms. ?act = ActionFishingChance False min_chance min_rooms) \<and>
            m_name ?m = str_of ''fishing_chance'')) \<and>
          py_float (m_default ?m) = Inl ValueError) \<or>
         ((\<exists>min_chance min_rooms. ?act = ActionFishingChance False min_chance min_rooms) \<and>
          m_name ?m = str_of ''fishing_room_space'' \<and> py_int (m_default ?m) = Inl ValueError)"
    using f by simp
  have pre: "process_lines ?a ?t [str_of ''first''] ?v = (Inr (?t\<lparr>written_line := True\<rparr>), ?w)"
    by (simp add: run_eval)
  note t = unparsable_default_aborts [OF m c h, of "?t\<lparr>written_line := True\<rparr>" ?w]
  from t have p: "process ?act (str_of ''damage_scale'') [] = Inl ValueError"
    by simp
  from t pre have "process_lines ?a ?t ([str_of ''first''] @ str_of ''x=@damage_scale|@'' #
                     [str_of ''never'']) ?v = (Inl ValueError, ?w)"
    by blast
  then have l: "process_lines ?a ?t
                  [str_of ''first'', str_of ''x=@damage_scale|@'', str_of ''never''] ?v
                = (Inl ValueError, ?w)"
    by (simp only: append.simps)
  have r: "(let r = process_files ?a [(''t'', [''a'', ''b''])]
              \<lparr>sources =
                 [''t/a'' \<mapsto> \<lparr>chardet_confidence = Finite 1, chardet_encoding = Some ''ascii'',
                                newlines_seen = NewlinesStr [10],
                                content = str_of ''first'' @ [10] @ str_of ''x=@damage_scale|@'' @ [10]
                                          @ str_of ''never'' @ [10]\<rparr>,
                  ''t/b'' \<mapsto> \<lparr>chardet_confidence = Finite 1, chardet_encoding = Some ''ascii'',
                                newlines_seen = NewlinesStr [10],
                                content = str_of ''other'' @ [10]\<rparr>],
               files = Map.empty, dirs = {}, stdout = []\<rparr>
    in fst r = Inl ValueError \<and> exit_status r = 1 \<and>
       files (snd r) ''l/a'' = Some (map of_nat (str_of ''first'')) \<and>
       files (snd r) ''l/b'' = None \<and> stdout (snd r) = [Processing ''a''])"
    by (simp add: run_eval py_float_eval)
  from f m p l r show ?thesis by (intro conjI)
qed

section \<open>Properties of the transformations\<close>






text \<open>
  Claim C7 fails as stated: \<open>ActionScaleFloat(4, inverse=True)\<close> on the default \<open>8\<close>
  returns the float 2.0, and the driver writes it with \<open>str\<close>, as \<open>2.0\<close>, not with six
  decimal places.
\<close>

theorem scale_float_text_counterexample:
  "ActionScaleFloat_init (PInt 4) True 6 False = Inr (ActionScaleFloat False (PFloat (Finite (1 / 4))) 6) \<and>
   process (ActionScaleFloat False (PFloat (Finite (1 / 4))) 6) (str_of ''well_gem_cost_scale'')
     (str_of ''8'') = Inr (PNum (PFloat (Finite 2))) \<and>
   py_str (PNum (PFloat (Finite 2))) = str_of ''2.0'' \<and>
   py_str (PNum (PFloat (Finite 2))) \<noteq> str_of ''2.000000''"
proof -
  have a: "py_float (str_of ''8'') = Inr (Finite 8)"
    by (simp add: py_float_eval round_double_numeral)
  have b: "ActionScaleFloat_init (PInt 4) True 6 False
             = Inr (ActionScaleFloat False (PFloat (Finite (1 / 4))) 6)"
    by (simp add: ActionScaleFloat_init_def init_scale_def double_quarter)
  have c: "process (ActionScaleFloat False (PFloat (Finite (1 / 4))) 6) (str_of ''well_gem_cost_scale'')
     (str_of ''8'') = Inr (PNum (PFloat (Finite 2)))"
    by (simp add: process_def a py_mul_float_def fmul_def is_nan_def is_inf_def
          round_double_numeral py_round_def rne_def Let_def)
  have d: "py_str (PNum (PFloat (Finite 2))) = str_of ''2.0''"
    by (simp add: float_repr_eval ilog10_2)
  from b c d show ?thesis by (simp add: str_of_def)
qed

text \<open>
  Claim C7, amended. \<open>ActionScaleFloat\<close> returns \<open>round(float(default) * scale,
  precision)\<close>: the float nearest to a decimal with \<open>precision\<close> places that lies within
  half a unit of the last place of the scaled value. The driver writes that float with
  \<open>str\<close>, the shortest decimal text that reads back as the same float.
\<close>

theorem scale_float_rounds_then_default_text:
  assumes "py_float dflt = Inr x" and "py_mul_float x scale = Inr new_val"
    and "py_round new_val precision = Inr r"
  shows "process (ActionScaleFloat False scale precision) name dflt = Inr (PNum (PFloat r)) \<and>
         py_str (PNum (PFloat r)) = float_repr r \<and>
         (\<forall>q. new_val = Finite q \<and> q \<noteq> 0 \<and> - 308 \<le> precision \<and> precision \<le> 323 \<longrightarrow>
            (\<exists>k. \<bar>of_int k / 10 powi precision - q\<bar> \<le> 1 / (2 * 10 powi precision) \<and>
                 fval r = fval (round_double (of_int k / 10 powi precision)))) \<and>
         (\<forall>a tp line w m. macro_re_match line = Some m \<and>
              changes a (m_name m) = Some (ActionScaleFloat False scale precision) \<and>
              m_default m = dflt \<longrightarrow>
            process_line a tp line w = TextProcessor_write tp (m_start m @ float_repr r @ m_end m) w)"
proof -
  have p: "process (ActionScaleFloat False scale precision) name dflt = Inr (PNum (PFloat r))" for name
    using assms by (simp add: process_def)
  have k: "\<exists>k. \<bar>of_int k / 10 powi precision - q\<bar> \<le> 1 / (2 * 10 powi precision) \<and>
                 fval r = fval (round_double (of_int k / 10 powi precision))"
    if h: "new_val = Finite q" "q \<noteq> 0" "- 308 \<le> precision" "precision \<le> 323" for q
  proof -
    define T :: rat where "T = 10 powi precision"
    have T: "0 < T" by (simp add: T_def)
    define k where "k = rne (q * T)"
    have "\<bar>of_int k - q * T\<bar> \<le> 1 / 2"
      using rne_bounds [of "q * T"] unfolding k_def by linarith
    then have "\<bar>of_int k - q * T\<bar> / T \<le> (1 / 2) / T"
      using T by (intro divide_right_mono) simp_all
    moreover have "\<bar>of_int k - q * T\<bar> / T = \<bar>of_int k / T - q\<bar>"
    proof -
      have "of_int k / T - q = (of_int k - q * T) / T"
        using T by (simp add: field_simps)
      then have "\<bar>of_int k / T - q\<bar> = \<bar>of_int k - q * T\<bar> / \<bar>T\<bar>"
        by (simp only: abs_divide)
      with T show ?thesis by simp
    qed
    ultimately have b: "\<bar>of_int k / T - q\<bar> \<le> 1 / (2 * T)" by simp
    from assms(3) h have "fval r = fval (round_double (of_int k / T))"
      by (auto simp: py_round_def Let_def signed_zero_def k_def T_def round_double_def
               split: if_splits pyfloat.splits)
    with b show ?thesis unfolding T_def by blast
  qed
  have l: "process_line a tp line w = TextProcessor_write tp (m_start m @ float_repr r @ m_end m) w"
    if "macro_re_match line = Some m"
       "changes a (m_name m) = Some (ActionScaleFloat False scale precision)" "m_default m = dflt"
    for a tp line w m
    using that p [of "m_name m"] by (simp add: process_line_def)
  from p k l show ?thesis by (simp only: py_str.simps) blast
qed

text \<open>
  An instance: default \<open>8\<close>, factor 0.25; the line is written with \<open>2.0\<close>.
\<close>

theorem scale_float_rounds_then_default_text_witness:
  "py_float (str_of ''8'') = Inr (Finite 8) \<and>
   py_mul_float (Finite 8) (PFloat (Finite (1 / 4))) = Inr (Finite 2) \<and>
   py_round (Finite 2) 6 = Inr (Finite 2) \<and>
   process (ActionScaleFloat False (PFloat (Finite (1 / 4))) 6) (str_of ''well_gem_cost_scale'')
     (str_of ''8'') = Inr (PNum (PFloat (Finite 2))) \<and>
   float_repr (Finite 2) = str_of ''2.0'' \<and>
   (\<exists>k. \<bar>of_int k / 10 powi 6 - (2 :: rat)\<bar> \<le> 1 / (2 * 10 powi 6) \<and>
        fval (Finite 2) = fval (round_double (of_int k / 10 powi 6))) \<and>
   process_line
     \<lparr>template_dir = ''t'', live_dir = ''l'',
      changes = [str_of ''well_gem_cost_scale'' \<mapsto> ActionScaleFloat False (PFloat (Finite (1 / 4))) 6]\<rparr>
     \<lparr>filename_orig = ''t/f'', filename_new = ''l/f'', written_line = False,
      orig_encoding = Some ''ascii'', encoding = Ascii, bom = None, newline = [10],
      data = [], odf = Some ''l/f''\<rparr>
     (str_of ''c=@well_gem_cost_scale|8@,'')
     \<lparr>sources = Map.empty, files = [''l/f'' \<mapsto> []], dirs = {}, stdout = []\<rparr>
   = (Inr \<lparr>filename_orig = ''t/f'', filename_new = ''l/f'', written_line = True,
           orig_encoding = Some ''ascii'', encoding = Ascii, bom = None, newline = [10],
           data = [], odf = Some ''l/f''\<rparr>,
      \<lparr>sources = Map.empty, files = [''l/f'' \<mapsto> map of_nat (str_of ''c=2.0,'')], dirs = {},
       stdout = []\<rparr>)"
proof -
  let ?act = "ActionScaleFloat False (PFloat (Finite (1 / 4))) 6"
  let ?a = "\<lparr>template_dir = ''t'', live_dir = ''l'',
      changes = [str_of ''well_gem_cost_scale'' \<mapsto> ?act]\<rparr>"
  let ?m = "\<lparr>m_start = str_of ''c='', m_name = str_of ''well_gem_cost_scale'',
             m_default = str_of ''8'', m_end = str_of '',''\<rparr>"
  have a: "py_float (str_of ''8'') = Inr (Finite 8)"
    by (simp add: py_float_eval round_double_numeral)
  have b: "py_mul_float (Finite 8) (PFloat (Finite (1 / 4))) = Inr (Finite 2)"
    by (simp add: py_mul_float_def fmul_def is_nan_def is_inf_def round_double_numeral)
  have c: "py_round (Finite 2) 6 = Inr (Finite 2)"
    by (simp add: py_round_def rne_def Let_def round_double_numeral)
  have d: "float_repr (Finite 2) = str_of ''2.0''"
    by (simp add: float_repr_eval ilog10_2)
  have m: "macro_re_match (str_of ''c=@well_gem_cost_scale|8@,'') = Some ?m"
    by (simp add: run_eval)
  have ch: "changes ?a (m_name ?m) = Some ?act" "m_default ?m = str_of ''8''"
    by simp_all
  note t = scale_float_rounds_then_default_text [OF a b c, of "str_of ''well_gem_cost_scale''"]
  from t have p: "process ?act (str_of ''well_gem_cost_scale'') (str_of ''8'')
                    = Inr (PNum (PFloat (Finite 2)))"
    by blast
  from t have k: "\<exists>k. \<bar>of_int k / 10 powi 6 - (2 :: rat)\<bar> \<le> 1 / (2 * 10 powi 6) \<and>
        fval (Finite 2) = fval (round_double (of_int k / 10 powi 6))"
    by simp
  from t m ch have "process_line ?a tp (str_of ''c=@well_gem_cost_scale|8@,'') w
          = TextProcessor_write tp (m_start ?m @ float_repr (Finite 2) @ m_end ?m) w" for tp w
    by blast
  then have l: "process_line ?a
     \<lparr>filename_orig = ''t/f'', filename_new = ''l/f'', written_line = False,
      orig_encoding = Some ''ascii'', encoding = Ascii, bom = None, newline = [10],
      data = [], odf = Some ''l/f''\<rparr>
     (str_of ''c=@well_gem_cost_scale|8@,'')
     \<lparr>sources = Map.empty, files = [''l/f'' \<mapsto> []], dirs = {}, stdout = []\<rparr>
   = (Inr \<lparr>filename_orig = ''t/f'', filename_new = ''l/f'', written_line = True,
           orig_encoding = Some ''ascii'', encoding = Ascii, bom = None, newline = [10],
           data = [], odf = Some ''l/f''\<rparr>,
      \<lparr>sources = Map.empty, files = [''l/f'' \<mapsto> map of_nat (str_of ''c=2.0,'')], dirs = {},
       stdout = []\<rparr>)"
    unfolding d by (simp add: TextProcessor_write_def odf_write_Some encode_ascii_def str_of_def)
  from a b c p d k l show ?thesis by (intro conjI)
qed

text \<open>
  Claim C8 fails as stated: \<open>fishing_chance\<close> is a name of the fishing action, and
  with an empty default the action raises \<open>ValueError\<close> instead of returning a value.
\<close>

theorem fishing_empty_default_counterexample:
  "process (ActionFishingChance False (PInt 1) (PInt 1)) (str_of ''fishing_chance'') []
     = Inl ValueError"
  by (simp add: process_def py_float_eval)

text \<open>
  Claim C8, amended. A name outside the three God Mode names, or outside the two fishing
  names, raises the \<open>RuntimeError\<close> of the action. For each of the three names a God
  Mode action made by its constructor returns a value. For each of the two fishing names
  the action returns a value when the default converts and raises \<open>ValueError\<close>
  otherwise, never the \<open>RuntimeError\<close>. The driver catches none of these errors: the
  loop over the lines ends with the error.
\<close>

theorem dispatch_on_macro_name:
  "(name \<notin> {str_of ''godmode_base_scale'', str_of ''godmode_per_death'',
              str_of ''godmode_death_cap''} \<longrightarrow>
      process (ActionGodMode False start_pct end_pct steps step) name dflt
        = Inl (RuntimeError ''Unknown GodMode macro name'')) \<and>
   (ActionGodMode_init start_pct end_pct steps False = Inr act \<and>
    name \<in> {str_of ''godmode_base_scale'', str_of ''godmode_per_death'',
             str_of ''godmode_death_cap''} \<longrightarrow>
      (\<exists>v. process act name dflt = Inr (PNum v))) \<and>
   (name \<notin> {str_of ''fishing_chance'', str_of ''fishing_room_space''} \<longrightarrow>
      process (ActionFishingChance False min_chance min_rooms) name dflt
        = Inl (RuntimeError ''Unknown Fishing macro name'')) \<and>
   process (ActionFishingChance False min_chance min_rooms) (str_of ''fishing_chance'') dflt
     = (case py_float dflt of
          Inl e \<Rightarrow> Inl ValueError
        | Inr x \<Rightarrow> Inr (PNum (py_max (PFloat x) min_chance))) \<and>
   process (ActionFishingChance False min_chance min_rooms) (str_of ''fishing_room_space'') dflt
     = (case py_int dflt of
          Inl e \<Rightarrow> Inl ValueError
        | Inr i \<Rightarrow> Inr (PNum (py_min (PInt i) min_rooms))) \<and>
   (\<forall>a tp w line m rest e. macro_re_match line = Some m \<and> changes a (m_name m) = Some act' \<and>
        process act' (m_name m) (m_default m) = Inl e \<longrightarrow>
      process_lines a tp (line # rest) w = (Inl e, w))"
proof -
  have g1: "process (ActionGodMode False start_pct end_pct steps step) name dflt
        = Inl (RuntimeError ''Unknown GodMode macro name'')"
    if "name \<notin> {str_of ''godmode_base_scale'', str_of ''godmode_per_death'',
              str_of ''godmode_death_cap''}"
    using that by (simp add: process_def)
  have g2: "\<exists>v. process act name dflt = Inr (PNum v)"
    if i: "ActionGodMode_init start_pct end_pct steps False = Inr act"
      and n: "name \<in> {str_of ''godmode_base_scale'', str_of ''godmode_per_death'',
             str_of ''godmode_death_cap''}"
  proof -
    from i obtain d st where st: "py_truediv d steps = Inr st"
      and act: "act = ActionGodMode False start_pct end_pct steps st"
      by (auto simp: ActionGodMode_init_def split: sum.splits)
    from py_round_6_returns [OF py_truediv_representable [OF st]]
    obtain r where "py_round st 6 = Inr r" by blast
    with n show ?thesis by (auto simp: act process_def)
  qed
  have f1: "process (ActionFishingChance False min_chance min_rooms) name dflt
        = Inl (RuntimeError ''Unknown Fishing macro name'')"
    if "name \<notin> {str_of ''fishing_chance'', str_of ''fishing_room_space''}"
    using that by (simp add: process_def)
  have f2: "process (ActionFishingChance False min_chance min_rooms) (str_of ''fishing_chance'') dflt
     = (case py_float dflt of
          Inl e \<Rightarrow> Inl ValueError
        | Inr x \<Rightarrow> Inr (PNum (py_max (PFloat x) min_chance)))"
    by (auto simp: process_def split: sum.splits dest: py_float_error)
  have ne: "str_of ''fishing_room_space'' \<noteq> str_of ''fishing_chance''"
    by (simp add: str_of_def)
  have f3: "process (ActionFishingChance False min_chance min_rooms) (str_of ''fishing_room_space'') dflt
     = (case py_int dflt of
          Inl e \<Rightarrow> Inl ValueError
        | Inr i \<Rightarrow> Inr (PNum (py_min (PInt i) min_rooms)))"
    using ne by (auto simp: process_def split: sum.splits dest: py_int_error)
  have u: "process_lines a tp (line # rest) w = (Inl e, w)"
    if "macro_re_match line = Some m" "changes a (m_name m) = Some act'"
       "process act' (m_name m) (m_default m) = Inl e" for a tp w line m rest e
    using process_line_raises [OF that] by simp
  from g1 g2 f1 f2 f3 u show ?thesis by blast
qed

text \<open>
  An instance: a misspelt name for each action, a God Mode action made by its constructor
  on a name of its set, and the loop over the lines ending with the error of a misspelt
  name.
\<close>

theorem dispatch_on_macro_name_witness:
  "process (ActionGodMode False (PInt 0) (PInt 60) (PInt 30) (Finite 2)) (str_of ''godmode_typo'') []
     = Inl (RuntimeError ''Unknown GodMode macro name'') \<and>
   ActionGodMode_init (PInt 0) (PInt 60) (PInt 30) False
     = Inr (ActionGodMode False (PInt 0) (PInt 60) (PInt 30) (Finite 2)) \<and>
   (\<exists>v. process (ActionGodMode False (PInt 0) (PInt 60) (PInt 30) (Finite 2))
          (str_of ''godmode_per_death'') [] = Inr (PNum v)) \<and>
   process (ActionFishingChance False (PInt 1) (PInt 1)) (str_of ''fishing_typo'') []
     = Inl (RuntimeError ''Unknown Fishing macro name'') \<and>
   process (ActionFishingChance False (PInt 1) (PInt 1)) (str_of ''fishing_room_space'') (str_of ''10'')
     = Inr (PNum (PInt 1)) \<and>
   process_lines
     \<lparr>template_dir = ''t'', live_dir = ''l'',
      changes = [str_of ''fishing_typo'' \<mapsto> ActionFishingChance False (PInt 1) (PInt 1)]\<rparr>
     \<lparr>filename_orig = ''t/f'', filename_new = ''l/f'', written_line = False,
      orig_encoding = Some ''ascii'', encoding = Ascii, bom = None, newline = [10],
      data = [], odf = Some ''l/f''\<rparr>
     [str_of ''@fishing_typo|1@'', str_of ''next'']
     \<lparr>sources = Map.empty, files = [''l/f'' \<mapsto> []], dirs = {}, stdout = []\<rparr>
   = (Inl (RuntimeError ''Unknown Fishing macro name''),
      \<lparr>sources = Map.empty, files = [''l/f'' \<mapsto> []], dirs = {}, stdout = []\<rparr>)"
proof -
  let ?g = "ActionGodMode False (PInt 0) (PInt 60) (PInt 30) (Finite 2)"
  let ?f = "ActionFishingChance False (PInt 1) (PInt 1)"
  let ?a = "\<lparr>template_dir = ''t'', live_dir = ''l'',
      changes = [str_of ''fishing_typo'' \<mapsto> ?f]\<rparr>"
  let ?m = "\<lparr>m_start = [], m_name = str_of ''fishing_typo'', m_default = str_of ''1'',
             m_end = []\<rparr>"
  have i: "ActionGodMode_init (PInt 0) (PInt 60) (PInt 30) False = Inr ?g"
    by (simp add: ActionGodMode_init_def round_double_numeral)
  have m: "macro_re_match (str_of ''@fishing_typo|1@'') = Some ?m"
    by (simp add: run_eval)
  have c: "changes ?a (m_name ?m) = Some ?f"
    by simp
  have n1: "str_of ''godmode_typo'' \<notin> {str_of ''godmode_base_scale'', str_of ''godmode_per_death'',
              str_of ''godmode_death_cap''}"
    and n2: "str_of ''godmode_per_death'' \<in> {str_of ''godmode_base_scale'', str_of ''godmode_per_death'',
              str_of ''godmode_death_cap''}"
    and n3: "str_of ''fishing_typo'' \<notin> {str_of ''fishing_chance'', str_of ''fishing_room_space''}"
    by (simp_all add: str_of_def)
  have b: "py_int (str_of ''10'') = Inr 10"
    by (simp add: py_int_def py_float_eval)
  note t1 = dispatch_on_macro_name
    [where name = "str_of ''godmode_typo''" and start_pct = "PInt 0" and end_pct = "PInt 60"
       and steps = "PInt 30" and step = "Finite 2" and dflt = "[]"]
  note t2 = dispatch_on_macro_name
    [where name = "str_of ''godmode_per_death''" and start_pct = "PInt 0" and end_pct = "PInt 60"
       and steps = "PInt 30" and act = ?g and dflt = "[]"]
  note t3 = dispatch_on_macro_name
    [where name = "str_of ''fishing_typo''" and min_chance = "PInt 1" and min_rooms = "PInt 1"
       and dflt = "str_of ''1''" and act' = ?f]
  note t4 = dispatch_on_macro_name
    [where min_chance = "PInt 1" and min_rooms = "PInt 1" and dflt = "str_of ''10''"]
  from t1 n1 have g1: "process ?g (str_of ''godmode_typo'') []
     = Inl (RuntimeError ''Unknown GodMode macro name'')"
    by blast
  from t2 n2 i have g2: "\<exists>v. process ?g (str_of ''godmode_per_death'') [] = Inr (PNum v)"
    by blast
  from t3 n3 have f1: "process ?f (str_of ''fishing_typo'') (str_of ''1'')
     = Inl (RuntimeError ''Unknown Fishing macro name'')"
    and f1': "process ?f (str_of ''fishing_typo'') []
     = Inl (RuntimeError ''Unknown Fishing macro name'')"
    by (blast, simp add: process_def str_of_def)
  from t4 b have f3: "process ?f (str_of ''fishing_room_space'') (str_of ''10'') = Inr (PNum (PInt 1))"
    by (simp add: py_min_def num_lt_def)
  have p: "process ?f (m_name ?m) (m_default ?m) = Inl (RuntimeError ''Unknown Fishing macro name'')"
    using f1 by simp
  from t3 m c p have u: "process_lines ?a tp (str_of ''@fishing_typo|1@'' # rest) w
           = (Inl (RuntimeError ''Unknown Fishing macro name''), w)" for tp rest w
    by blast
  from g1 i g2 f1' f3 u show ?thesis by blast
qed

end
